theory Spec2Isabelle
  imports
    Complex_Main
    "HOL-Library.AList"
    "HOL-Library.Char_ord"
    "HOL-Library.List_Lexorder"
begin

section \<open>Values of the plan documents\<close>

text \<open>
  A plan document is what \<^verbatim>\<open>json.Unmarshal\<close> stores in a
  \<^verbatim>\<open>map[string]interface{}\<close>: \<^verbatim>\<open>nil\<close>, \<^verbatim>\<open>bool\<close>, \<^verbatim>\<open>float64\<close>, \<^verbatim>\<open>string\<close>,
  \<^verbatim>\<open>[]interface{}\<close> and \<^verbatim>\<open>map[string]interface{}\<close>.  A number is modelled by
  the rational it denotes (a parsed JSON number is never NaN or infinite, and Go's
  \<^verbatim>\<open>==\<close> on such floats is equality of the denoted number).  A Go string is its bytes.

  A Go map is modelled by an association list: the order of the list is the order in which
  \<^verbatim>\<open>range\<close> visits the entries, a lookup is \<^const>\<open>map_of\<close>, the assignment
  \<^verbatim>\<open>m[k] = v\<close> is \<^const>\<open>AList.update\<close>.  A list stands for a Go map only when its keys
  are distinct (\<open>wellFormed\<close> below).  The slices of maps that the diff functions build
  (\<^verbatim>\<open>[]map[string]interface{}\<close>) are kept as lists of association lists and become
  \<open>JArr (map JObj xs)\<close> when they are stored in a \<^verbatim>\<open>map[string]interface{}\<close>.
\<close>

datatype jvalue =
    JNull
  | JBool bool
  | JNum rat
  | JStr string
  | JArr "jvalue list"
  | JObj "(string \<times> jvalue) list"

type_synonym jmap = "(string \<times> jvalue) list"

text \<open>\<^verbatim>\<open>m[k]\<close> read as a value: \<^verbatim>\<open>nil\<close> when the key is missing.\<close>

definition go_index :: "jmap \<Rightarrow> string \<Rightarrow> jvalue" where
  "go_index m k = (case map_of m k of None \<Rightarrow> JNull | Some v \<Rightarrow> v)"

text \<open>The type assertions \<^verbatim>\<open>v.(map[string]interface{})\<close>, \<^verbatim>\<open>v.([]interface{})\<close> and
  \<^verbatim>\<open>v.(string)\<close> in their comma-ok form.\<close>

fun asMap :: "jvalue \<Rightarrow> jmap option" where
  "asMap (JObj m) = Some m"
| "asMap _ = None"

fun asSlice :: "jvalue \<Rightarrow> jvalue list option" where
  "asSlice (JArr xs) = Some xs"
| "asSlice _ = None"

fun asString :: "jvalue \<Rightarrow> string option" where
  "asString (JStr s) = Some s"
| "asString _ = None"

fun wellFormed :: "jvalue \<Rightarrow> bool" where
  "wellFormed (JObj m) = (distinct (map fst m) \<and> (\<forall>(k, v) \<in> set m. wellFormed v))"
| "wellFormed (JArr xs) = (\<forall>x \<in> set xs. wellFormed x)"
| "wellFormed _ = True"

text \<open>
  \<^verbatim>\<open>reflect.DeepEqual\<close> on these values, after the documentation of package reflect:
  values of different dynamic types are never deeply equal; slices are deeply equal when
  they have the same length and deeply equal elements; maps are deeply equal when they have
  the same length and every key of the first maps, in both, to deeply equal values.
\<close>

function (sequential) deepEqual :: "jvalue \<Rightarrow> jvalue \<Rightarrow> bool" where
  "deepEqual JNull JNull = True"
| "deepEqual (JBool a) (JBool b) = (a = b)"
| "deepEqual (JNum a) (JNum b) = (a = b)"
| "deepEqual (JStr a) (JStr b) = (a = b)"
| "deepEqual (JArr xs) (JArr ys) =
     (length xs = length ys \<and> (\<forall>(x, y) \<in> set (zip xs ys). deepEqual x y))"
| "deepEqual (JObj m1) (JObj m2) =
     (length m1 = length m2 \<and>
      (\<forall>(k, v1) \<in> set m1.
         case map_of m2 k of None \<Rightarrow> False | Some v2 \<Rightarrow> deepEqual v1 v2))"
| "deepEqual _ _ = False"
  by pat_completeness auto
termination
proof (relation "measure (\<lambda>(a, b). size a)", goal_cases)
  case 1
  show ?case by simp
next
  case (2 xs ys z x y)
  then have "x \<in> set xs" by (auto dest: set_zip_leftD)
  then have "size x \<le> size_list size xs" by (simp add: size_list_estimation')
  then show ?case by simp
next
  case (3 m1 m2 z k v1 v2)
  then have "size_prod (\<lambda>_. 0) size (k, v1) \<le> size_list (size_prod (\<lambda>_. 0) size) m1"
    by (simp add: size_list_estimation')
  then show ?case by simp
qed

section \<open>Locating the JSON payload\<close>

datatype error = ErrNoJSONOutput

text \<open>\<^verbatim>\<open>strings.Index(s, substr)\<close>: the index of the first instance of \<open>substr\<close> in
  \<open>s\<close>, or \<open>-1\<close>.\<close>

fun stringsIndex :: "string \<Rightarrow> string \<Rightarrow> int" where
  "stringsIndex [] substr = (if substr = [] then 0 else - 1)"
| "stringsIndex (c # s) substr =
     (if take (length substr) (c # s) = substr then 0
      else (let i = stringsIndex s substr in if i = - 1 then - 1 else i + 1))"

definition extractJSONFromOutput :: "string \<Rightarrow> string \<times> error option" where
  "extractJSONFromOutput output =
     (let jsonStartIdx = stringsIndex output ''{'' in
      if jsonStartIdx = - 1 then ('''', Some ErrNoJSONOutput)
      else (let jsonOutput = drop (nat jsonStartIdx) output in (jsonOutput, None)))"

section \<open>Normalisation\<close>

lemma size_go_index:
  "size (go_index m k) \<le> size_list (size_prod (\<lambda>_. 0) size) m"
proof (cases "map_of m k")
  case None
  then show ?thesis by (simp add: go_index_def)
next
  case (Some v)
  then have "(k, v) \<in> set m" by (rule map_of_SomeD)
  then have "size_prod (\<lambda>_. 0) size (k, v) \<le> size_list (size_prod (\<lambda>_. 0) size) m"
    by (simp add: size_list_estimation')
  with Some show ?thesis by (simp add: go_index_def)
qed

lemma size_go_index2:
  "2 * size (go_index m k) < Suc (2 * size_list (size_prod (\<lambda>_. 0) size) m)"
  using size_go_index [of m k] by simp

function sortMapKeys :: "jmap \<Rightarrow> jmap"
  and processValue :: "jvalue \<Rightarrow> jvalue" where
  "sortMapKeys m =
     (let result = [];
          keys = map fst m;
          keys = sort keys
      in fold (\<lambda>k result. let v = go_index m k in AList.update k (processValue v) result)
           keys result)"
| "processValue (JObj nestedMap) = JObj (sortMapKeys nestedMap)"
| "processValue (JArr nestedSlice) = JArr (map processValue nestedSlice)"
| "processValue JNull = JNull"
| "processValue (JBool b) = JBool b"
| "processValue (JNum n) = JNum n"
| "processValue (JStr s) = JStr s"
  by pat_completeness auto
termination
proof (relation "measure (\<lambda>x. case x of
          Inl m \<Rightarrow> Suc (2 * size_list (size_prod (\<lambda>_. 0) size) m)
        | Inr v \<Rightarrow> 2 * size v)", goal_cases)
  case 1
  show ?case by simp
next
  case 2
  then show ?case by (simp add: size_go_index2)
next
  case (3 nestedMap)
  show ?case by simp
next
  case (4 nestedSlice x)
  then have "size x \<le> size_list size nestedSlice"
    by (simp add: size_list_estimation')
  then show ?case by simp
qed

declare sortMapKeys.simps [simp del]

section \<open>Rendering\<close>

text \<open>
  The formatting helpers \<^verbatim>\<open>formatValue\<close>, \<^verbatim>\<open>formatOutputChange\<close> and
  \<^verbatim>\<open>printAttributeDiff\<close> are called by the diff functions but are not part of the
  sources at hand; they only produce text.  They are parameters of the model:
  \<open>formatValue R v\<close> is the \<^verbatim>\<open>%v\<close> rendering of \<^verbatim>\<open>formatValue(v)\<close>,
  \<open>formatOutputChange R k old new\<close> the returned string, and
  \<open>printAttributeDiff R diff k old new\<close> the content of the builder after the call when
  it held \<open>diff\<close> before.
\<close>

record renderer =
  formatValue :: "jvalue \<Rightarrow> string"
  formatOutputChange :: "string \<Rightarrow> jvalue \<Rightarrow> jvalue \<Rightarrow> string"
  printAttributeDiff :: "string \<Rightarrow> string \<Rightarrow> jvalue \<Rightarrow> jvalue \<Rightarrow> string"

definition nl :: string where
  "nl = [CHR 0x0A]"

section \<open>Extracting the sections\<close>

definition getVariables :: "jmap \<Rightarrow> jmap" where
  "getVariables plan =
     (let result = [] in
      case asMap (go_index plan ''variables'') of
        Some vars \<Rightarrow>
          fold (\<lambda>(k, v) result.
                  case asMap v of
                    Some varMap \<Rightarrow>
                      (case map_of varMap ''value'' of
                         Some val \<Rightarrow> AList.update k val result
                       | None \<Rightarrow> result)
                  | None \<Rightarrow> result)
               vars result
      | None \<Rightarrow> result)"

definition processRootModuleResources :: "jmap \<Rightarrow> jmap \<Rightarrow> jmap" where
  "processRootModuleResources rootModule result =
     (case asSlice (go_index rootModule ''resources'') of
        None \<Rightarrow> result
      | Some resources \<Rightarrow>
          fold (\<lambda>res result.
                  case asMap res of
                    None \<Rightarrow> result
                  | Some resMap \<Rightarrow>
                      (case map_of resMap ''address'' of
                         None \<Rightarrow> result
                       | Some addressVal \<Rightarrow>
                           (case asString addressVal of
                              None \<Rightarrow> result
                            | Some address \<Rightarrow> AList.update address (JObj resMap) result)))
               resources result)"

definition processPriorStateResources :: "jmap \<Rightarrow> jmap \<Rightarrow> jmap" where
  "processPriorStateResources plan result =
     (case asMap (go_index plan ''prior_state'') of
        None \<Rightarrow> result
      | Some priorState \<Rightarrow>
          (case asMap (go_index priorState ''values'') of
             None \<Rightarrow> result
           | Some vals \<Rightarrow>
               (case asMap (go_index vals ''root_module'') of
                  None \<Rightarrow> result
                | Some rootModule \<Rightarrow> processRootModuleResources rootModule result)))"

definition processPlannedValuesResources :: "jmap \<Rightarrow> jmap \<Rightarrow> jmap" where
  "processPlannedValuesResources plan result =
     (case asMap (go_index plan ''planned_values'') of
        None \<Rightarrow> result
      | Some plannedValues \<Rightarrow>
          (case asMap (go_index plannedValues ''root_module'') of
             None \<Rightarrow> result
           | Some rootModule \<Rightarrow> processRootModuleResources rootModule result))"

definition processResourceChanges :: "jmap \<Rightarrow> jmap \<Rightarrow> jmap" where
  "processResourceChanges plan result =
     (case asSlice (go_index plan ''resource_changes'') of
        None \<Rightarrow> result
      | Some resourceChanges \<Rightarrow>
          fold (\<lambda>change result.
                  case asMap change of
                    None \<Rightarrow> result
                  | Some changeMap \<Rightarrow>
                      (case map_of changeMap ''address'' of
                         None \<Rightarrow> result
                       | Some addressVal \<Rightarrow>
                           (case asString addressVal of
                              None \<Rightarrow> result
                            | Some address \<Rightarrow> AList.update address (JObj changeMap) result)))
               resourceChanges result)"

definition getResources :: "jmap \<Rightarrow> jmap" where
  "getResources plan =
     (let result = [];
          result = processPriorStateResources plan result;
          result = processPlannedValuesResources plan result;
          result = processResourceChanges plan result
      in result)"

definition getOutputs :: "jmap \<Rightarrow> jmap" where
  "getOutputs plan =
     (let result = [];
          result =
            (case asMap (go_index plan ''planned_values'') of
               Some plannedValues \<Rightarrow>
                 (case asMap (go_index plannedValues ''outputs'') of
                    Some outputs \<Rightarrow>
                      fold (\<lambda>(k, v) result. AList.update k v result) outputs result
                  | None \<Rightarrow> result)
             | None \<Rightarrow> result);
          result =
            (case asMap (go_index plan ''output_changes'') of
               Some outputChanges \<Rightarrow>
                 fold (\<lambda>(k, v) result.
                         if map_of result k = None then AList.update k v result else result)
                      outputChanges result
             | None \<Rightarrow> result)
      in result)"

section \<open>Effective attributes of a resource\<close>

definition extractValuesField :: "jmap \<Rightarrow> jmap \<Rightarrow> jmap" where
  "extractValuesField resMap result =
     (case asMap (go_index resMap ''values'') of
        None \<Rightarrow> result
      | Some vals \<Rightarrow> fold (\<lambda>(k, v) result. AList.update k v result) vals result)"

definition extractChangeAfterField :: "jmap \<Rightarrow> jmap \<Rightarrow> jmap" where
  "extractChangeAfterField resMap result =
     (case asMap (go_index resMap ''change'') of
        None \<Rightarrow> result
      | Some change \<Rightarrow>
          (case asMap (go_index change ''after'') of
             None \<Rightarrow> result
           | Some after \<Rightarrow> fold (\<lambda>(k, v) result. AList.update k v result) after result))"

definition getResourceAttributes :: "jvalue \<Rightarrow> jmap" where
  "getResourceAttributes resource =
     (let result = [] in
      case asMap resource of
        None \<Rightarrow> result
      | Some resMap \<Rightarrow>
          (let result = extractValuesField resMap result;
               result = extractChangeAfterField resMap result
           in result))"

section \<open>Comparing attributes\<close>

fun contains :: "string list \<Rightarrow> string \<Rightarrow> bool" where
  "contains [] s = False"
| "contains (item # slice) s = (if item = s then True else contains slice s)"

text \<open>\<^verbatim>\<open>skipAttrs[attrK]\<close> on a \<^verbatim>\<open>map[string]bool\<close>: \<^verbatim>\<open>false\<close> for a missing key.\<close>

definition go_index_bool :: "(string \<times> bool) list \<Rightarrow> string \<Rightarrow> bool" where
  "go_index_bool m k = (case map_of m k of None \<Rightarrow> False | Some b \<Rightarrow> b)"

text \<open>
  The functions below receive the builder \<^verbatim>\<open>diff\<close> and the slices \<^verbatim>\<open>added\<close>,
  \<^verbatim>\<open>removed\<close>, \<^verbatim>\<open>changed\<close> by pointer; the model takes their contents and returns
  the updated contents.
\<close>

definition processPriorityAttributes ::
  "renderer \<Rightarrow> string \<Rightarrow> jmap \<Rightarrow> jmap \<Rightarrow> string list \<Rightarrow> jmap list \<Rightarrow> jmap list \<Rightarrow> jmap list
     \<Rightarrow> string \<times> jmap list \<times> jmap list \<times> jmap list" where
  "processPriorityAttributes R diff origAttrs newAttrs priorityAttrs added removed changed =
     fold (\<lambda>attrK (diff, added, removed, changed).
             let origAttrV = go_index origAttrs attrK;
                 origExists = (map_of origAttrs attrK \<noteq> None);
                 newAttrV = go_index newAttrs attrK;
                 newExists = (map_of newAttrs attrK \<noteq> None)
             in if origExists \<and> newExists \<and> \<not> deepEqual origAttrV newAttrV then
                  (printAttributeDiff R diff attrK origAttrV newAttrV, added, removed,
                   changed @ [[(''name'', JStr attrK), (''old'', origAttrV), (''new'', newAttrV)]])
                else if origExists \<and> \<not> newExists then
                  (diff @ ''  - '' @ attrK @ '': '' @ formatValue R origAttrV @ nl, added,
                   removed @ [[(''name'', JStr attrK), (''value'', origAttrV)]], changed)
                else if \<not> origExists \<and> newExists then
                  (diff @ ''  + '' @ attrK @ '': '' @ formatValue R newAttrV @ nl,
                   added @ [[(''name'', JStr attrK), (''value'', newAttrV)]], removed, changed)
                else (diff, added, removed, changed))
          priorityAttrs (diff, added, removed, changed)"

definition processRegularAttributeChanges ::
  "renderer \<Rightarrow> string \<Rightarrow> jmap \<Rightarrow> jmap \<Rightarrow> string list \<Rightarrow> (string \<times> bool) list
     \<Rightarrow> jmap list \<Rightarrow> jmap list \<Rightarrow> jmap list \<Rightarrow> string \<times> jmap list \<times> jmap list \<times> jmap list" where
  "processRegularAttributeChanges R diff origAttrs newAttrs priorityAttrs skipAttrs
       added removed changed =
     fold (\<lambda>(attrK, origAttrV) (diff, added, removed, changed).
             if contains priorityAttrs attrK \<or> go_index_bool skipAttrs attrK then
               (diff, added, removed, changed)
             else
               (let newAttrV = go_index newAttrs attrK;
                    exists = (map_of newAttrs attrK \<noteq> None)
                in if exists \<and> \<not> deepEqual origAttrV newAttrV then
                     (printAttributeDiff R diff attrK origAttrV newAttrV, added, removed,
                      changed @ [[(''name'', JStr attrK), (''old'', origAttrV), (''new'', newAttrV)]])
                   else if \<not> exists then
                     (diff @ ''  - '' @ attrK @ '': '' @ formatValue R origAttrV @ nl, added,
                      removed @ [[(''name'', JStr attrK), (''value'', origAttrV)]], changed)
                   else (diff, added, removed, changed)))
          origAttrs (diff, added, removed, changed)"

definition processAddedAttributes ::
  "renderer \<Rightarrow> string \<Rightarrow> jmap \<Rightarrow> jmap \<Rightarrow> string list \<Rightarrow> (string \<times> bool) list
     \<Rightarrow> jmap list \<Rightarrow> string \<times> jmap list" where
  "processAddedAttributes R diff origAttrs newAttrs priorityAttrs skipAttrs added =
     fold (\<lambda>(attrK, newAttrV) (diff, added).
             if map_of origAttrs attrK = None \<and> \<not> contains priorityAttrs attrK
                \<and> \<not> go_index_bool skipAttrs attrK then
               (diff @ ''  + '' @ attrK @ '': '' @ formatValue R newAttrV @ nl,
                added @ [[(''name'', JStr attrK), (''value'', newAttrV)]])
             else (diff, added))
          newAttrs (diff, added)"

definition processAttributeDifferences ::
  "renderer \<Rightarrow> string \<Rightarrow> jmap \<Rightarrow> jmap \<Rightarrow> string \<times> jmap" where
  "processAttributeDifferences R diff origAttrs newAttrs =
     (let priorityAttrs = [''id'', ''url'', ''content''];
          skipAttrs = [(''response_body_base64'', True),
                       (''content_base64sha256'', True),
                       (''content_base64sha512'', True),
                       (''content_md5'', True),
                       (''content_sha1'', True),
                       (''content_sha256'', True),
                       (''content_sha512'', True)];
          attrChanges = [];
          added = [];
          removed = [];
          changed = [];
          (diff, added, removed, changed) =
            processPriorityAttributes R diff origAttrs newAttrs priorityAttrs
              added removed changed;
          (diff, added, removed, changed) =
            processRegularAttributeChanges R diff origAttrs newAttrs priorityAttrs skipAttrs
              added removed changed;
          (diff, added) =
            processAddedAttributes R diff origAttrs newAttrs priorityAttrs skipAttrs added;
          attrChanges = AList.update ''added'' (JArr (map JObj added)) attrChanges;
          attrChanges = AList.update ''removed'' (JArr (map JObj removed)) attrChanges;
          attrChanges = AList.update ''changed'' (JArr (map JObj changed)) attrChanges
      in (diff, attrChanges))"

section \<open>Comparing resources\<close>

definition processResourceAdditionsAndRemovals ::
  "string \<Rightarrow> jmap \<Rightarrow> jmap \<Rightarrow> string \<times> jmap list \<times> jmap list" where
  "processResourceAdditionsAndRemovals diff origResources newResources =
     (let added = [];
          removed = [];
          (diff, added) =
            fold (\<lambda>(k, v) (diff, added).
                    if map_of origResources k = None then
                      (diff @ ''+ '' @ k @ nl, added @ [[(''address'', JStr k), (''value'', v)]])
                    else (diff, added))
                 newResources (diff, added);
          (diff, removed) =
            fold (\<lambda>(k, v) (diff, removed).
                    if map_of newResources k = None then
                      (diff @ ''- '' @ k @ nl, removed @ [[(''address'', JStr k), (''value'', v)]])
                    else (diff, removed))
                 origResources (diff, removed)
      in (diff, added, removed))"

definition processChangedResources ::
  "renderer \<Rightarrow> string \<Rightarrow> jmap \<Rightarrow> jmap \<Rightarrow> string \<times> jmap list" where
  "processChangedResources R diff origResources newResources =
     (let changed = [] in
      fold (\<lambda>(k, origV) (diff, changed).
              let newV = go_index newResources k;
                  exists = (map_of newResources k \<noteq> None)
              in if \<not> exists \<or> deepEqual origV newV then (diff, changed)
                 else
                   (let diff = diff @ k @ nl;
                        origAttrs = getResourceAttributes origV;
                        newAttrs = getResourceAttributes newV;
                        (diff, attrChanges) =
                          processAttributeDifferences R diff origAttrs newAttrs
                    in (diff,
                        changed @ [[(''address'', JStr k), (''attributes'', JObj attrChanges)]])))
           origResources (diff, changed))"

definition compareResources :: "renderer \<Rightarrow> jmap \<Rightarrow> jmap \<Rightarrow> string \<times> jmap" where
  "compareResources R origResources newResources =
     (let diff = [];
          diffMap = [];
          (diff, added, removed) =
            processResourceAdditionsAndRemovals diff origResources newResources;
          diffMap = AList.update ''added'' (JArr (map JObj added)) diffMap;
          diffMap = AList.update ''removed'' (JArr (map JObj removed)) diffMap;
          (diff, changed) = processChangedResources R diff origResources newResources;
          diffMap = AList.update ''changed'' (JArr (map JObj changed)) diffMap
      in (diff, diffMap))"

section \<open>Comparing outputs and variables\<close>

definition compareOutputs :: "renderer \<Rightarrow> jmap \<Rightarrow> jmap \<Rightarrow> string \<times> jmap" where
  "compareOutputs R origOutputs newOutputs =
     (let diff = [];
          diffMap = [];
          added = [];
          removed = [];
          changed = [];
          (diff, added) =
            fold (\<lambda>(k, v) (diff, added).
                    if map_of origOutputs k = None then
                      (diff @ ''+ '' @ k @ '': '' @ formatValue R v @ nl,
                       added @ [[(''name'', JStr k), (''value'', v)]])
                    else (diff, added))
                 newOutputs (diff, added);
          (diff, removed) =
            fold (\<lambda>(k, v) (diff, removed).
                    if map_of newOutputs k = None then
                      (diff @ ''- '' @ k @ '': '' @ formatValue R v @ nl,
                       removed @ [[(''name'', JStr k), (''value'', v)]])
                    else (diff, removed))
                 origOutputs (diff, removed);
          (diff, changed) =
            fold (\<lambda>(k, origV) (diff, changed).
                    let newV = go_index newOutputs k;
                        exists = (map_of newOutputs k \<noteq> None)
                    in if exists \<and> \<not> deepEqual origV newV then
                         (diff @ formatOutputChange R k origV newV,
                          changed @ [[(''name'', JStr k), (''old'', origV), (''new'', newV)]])
                       else (diff, changed))
                 origOutputs (diff, changed);
          diffMap = AList.update ''added'' (JArr (map JObj added)) diffMap;
          diffMap = AList.update ''removed'' (JArr (map JObj removed)) diffMap;
          diffMap = AList.update ''changed'' (JArr (map JObj changed)) diffMap
      in (diff, diffMap))"

text \<open>
  The section comparisons return \<^verbatim>\<open>nil\<close> for the map when the sections are deeply
  equal; a \<^verbatim>\<open>nil\<close> map reads as the empty map and is modelled by \<open>[]\<close>.
\<close>

definition compareVariables :: "renderer \<Rightarrow> jmap \<Rightarrow> jmap \<Rightarrow> string \<times> jmap \<times> bool" where
  "compareVariables R origPlan newPlan =
     (let origVars = getVariables origPlan;
          newVars = getVariables newPlan
      in if deepEqual (JObj origVars) (JObj newVars) then ('''', [], False)
         else
           (let diffMap = [];
                added = [];
                removed = [];
                changed = [];
                diff = [];
                diff = diff @ ''Variables:'' @ nl;
                diff = diff @ ''----------'' @ nl;
                (diff, added) =
                  fold (\<lambda>(k, v) (diff, added).
                          if map_of origVars k = None then
                            (diff @ ''+ '' @ k @ '': '' @ formatValue R v @ nl,
                             added @ [[(''name'', JStr k), (''value'', v)]])
                          else (diff, added))
                       newVars (diff, added);
                (diff, removed) =
                  fold (\<lambda>(k, v) (diff, removed).
                          if map_of newVars k = None then
                            (diff @ ''- '' @ k @ '': '' @ formatValue R v @ nl,
                             removed @ [[(''name'', JStr k), (''value'', v)]])
                          else (diff, removed))
                       origVars (diff, removed);
                (diff, changed) =
                  fold (\<lambda>(k, origV) (diff, changed).
                          let newV = go_index newVars k;
                              exists = (map_of newVars k \<noteq> None)
                          in if exists \<and> \<not> deepEqual origV newV then
                               (diff @ ''~ '' @ k @ '': '' @ formatValue R origV @ '' => ''
                                  @ formatValue R newV @ nl,
                                changed @ [[(''name'', JStr k), (''old'', origV), (''new'', newV)]])
                             else (diff, changed))
                       origVars (diff, changed);
                diff = diff @ nl;
                diffMap = AList.update ''added'' (JArr (map JObj added)) diffMap;
                diffMap = AList.update ''removed'' (JArr (map JObj removed)) diffMap;
                diffMap = AList.update ''changed'' (JArr (map JObj changed)) diffMap
            in (diff, diffMap, True)))"

definition compareResourceSections :: "renderer \<Rightarrow> jmap \<Rightarrow> jmap \<Rightarrow> string \<times> jmap \<times> bool" where
  "compareResourceSections R origPlan newPlan =
     (let origResources = getResources origPlan;
          newResources = getResources newPlan
      in if deepEqual (JObj origResources) (JObj newResources) then ('''', [], False)
         else
           (let diff = [];
                diff = diff @ ''Resources:'' @ nl;
                diff = diff @ ''-----------'' @ nl;
                diff = diff @ nl;
                (resourceDiff, resourceDiffMap) = compareResources R origResources newResources;
                diff = diff @ resourceDiff;
                diff = diff @ nl
            in (diff, resourceDiffMap, True)))"

definition compareOutputSections :: "renderer \<Rightarrow> jmap \<Rightarrow> jmap \<Rightarrow> string \<times> jmap \<times> bool" where
  "compareOutputSections R origPlan newPlan =
     (let origOutputs = getOutputs origPlan;
          newOutputs = getOutputs newPlan
      in if deepEqual (JObj origOutputs) (JObj newOutputs) then ('''', [], False)
         else
           (let diff = [];
                diff = diff @ ''Outputs:'' @ nl;
                diff = diff @ ''--------'' @ nl;
                (outputDiff, outputDiffMap) = compareOutputs R origOutputs newOutputs;
                diff = diff @ outputDiff
            in (diff, outputDiffMap, True)))"

section \<open>The diff of two plans\<close>

definition generatePlanDiff :: "renderer \<Rightarrow> jmap \<Rightarrow> jmap \<Rightarrow> string \<times> jmap \<times> bool" where
  "generatePlanDiff R origPlan newPlan =
     (let diff = [];
          hasDiff = False;
          diffMap = [];
          (diff, diffMap, hasDiff) =
            (case compareVariables R origPlan newPlan of
               (varsDiff, varsMap, varsHasDiff) \<Rightarrow>
                 if varsHasDiff then
                   (diff @ varsDiff, AList.update ''variables'' (JObj varsMap) diffMap, True)
                 else (diff, diffMap, hasDiff));
          (diff, diffMap, hasDiff) =
            (case compareResourceSections R origPlan newPlan of
               (resourcesDiff, resourcesMap, resourcesHasDiff) \<Rightarrow>
                 if resourcesHasDiff then
                   (diff @ resourcesDiff, AList.update ''resources'' (JObj resourcesMap) diffMap,
                    True)
                 else (diff, diffMap, hasDiff));
          (diff, diffMap, hasDiff) =
            (case compareOutputSections R origPlan newPlan of
               (outputsDiff, outputsMap, outputsHasDiff) \<Rightarrow>
                 if outputsHasDiff then
                   (diff @ outputsDiff, AList.update ''outputs'' (JObj outputsMap) diffMap, True)
                 else (diff, diffMap, hasDiff))
      in (diff, diffMap, hasDiff))"

section \<open>Notions used in the statements\<close>

text \<open>The \<^verbatim>\<open>values\<close> sub-map of a resource record, and its \<^verbatim>\<open>change.after\<close> sub-map;
  each is empty when the record has no such mapping.\<close>

definition valuesField :: "jmap \<Rightarrow> jmap" where
  "valuesField resMap =
     (case asMap (go_index resMap ''values'') of Some vals \<Rightarrow> vals | None \<Rightarrow> [])"

definition changeAfterField :: "jmap \<Rightarrow> jmap" where
  "changeAfterField resMap =
     (case asMap (go_index resMap ''change'') of
        Some change \<Rightarrow>
          (case asMap (go_index change ''after'') of Some after \<Rightarrow> after | None \<Rightarrow> [])
      | None \<Rightarrow> [])"

text \<open>The two sources of outputs and the three sources of resources of a plan, each
  empty when the plan has no value of the expected shape at that path.\<close>

definition plannedOutputs :: "jmap \<Rightarrow> jmap" where
  "plannedOutputs plan =
     (case asMap (go_index plan ''planned_values'') of
        Some plannedValues \<Rightarrow>
          (case asMap (go_index plannedValues ''outputs'') of
             Some outputs \<Rightarrow> outputs
           | None \<Rightarrow> [])
      | None \<Rightarrow> [])"

definition outputChanges :: "jmap \<Rightarrow> jmap" where
  "outputChanges plan =
     (case asMap (go_index plan ''output_changes'') of
        Some changes \<Rightarrow> changes
      | None \<Rightarrow> [])"

definition priorStateResources :: "jmap \<Rightarrow> jvalue list" where
  "priorStateResources plan =
     (case asMap (go_index plan ''prior_state'') of
        Some priorState \<Rightarrow>
          (case asMap (go_index priorState ''values'') of
             Some vals \<Rightarrow>
               (case asMap (go_index vals ''root_module'') of
                  Some rootModule \<Rightarrow>
                    (case asSlice (go_index rootModule ''resources'') of
                       Some resources \<Rightarrow> resources
                     | None \<Rightarrow> [])
                | None \<Rightarrow> [])
           | None \<Rightarrow> [])
      | None \<Rightarrow> [])"

definition plannedResources :: "jmap \<Rightarrow> jvalue list" where
  "plannedResources plan =
     (case asMap (go_index plan ''planned_values'') of
        Some plannedValues \<Rightarrow>
          (case asMap (go_index plannedValues ''root_module'') of
             Some rootModule \<Rightarrow>
               (case asSlice (go_index rootModule ''resources'') of
                  Some resources \<Rightarrow> resources
                | None \<Rightarrow> [])
           | None \<Rightarrow> [])
      | None \<Rightarrow> [])"

definition resourceChanges :: "jmap \<Rightarrow> jvalue list" where
  "resourceChanges plan =
     (case asSlice (go_index plan ''resource_changes'') of
        Some changes \<Rightarrow> changes
      | None \<Rightarrow> [])"

text \<open>The last entry of a sequence that is a mapping carrying the string address
  \<open>a\<close>.\<close>

fun latestRecord :: "string \<Rightarrow> jvalue list \<Rightarrow> jmap option" where
  "latestRecord a [] = None"
| "latestRecord a (r # rs) =
     (case latestRecord a rs of
        Some m \<Rightarrow> Some m
      | None \<Rightarrow>
          (case asMap r of
             Some m \<Rightarrow> if map_of m ''address'' = Some (JStr a) then Some m else None
           | None \<Rightarrow> None))"

text \<open>A plan with two resources in the prior state, one of them planned anew and the other
  changed, and two malformed entries.\<close>

definition examplePlan :: jmap where
  "examplePlan =
     [(''prior_state'', JObj [(''values'', JObj [(''root_module'', JObj [(''resources'',
          JArr [JObj [(''address'', JStr ''a.x''), (''values'', JObj [(''id'', JStr ''1'')])],
                JObj [(''address'', JStr ''a.y''), (''values'', JObj [(''id'', JStr ''2'')])]])])])]),
      (''planned_values'', JObj [(''root_module'', JObj [(''resources'',
          JArr [JObj [(''address'', JStr ''a.y''), (''values'', JObj [(''id'', JStr ''3'')])],
                JObj [(''address'', JNum 7)]])])]),
      (''resource_changes'',
          JArr [JObj [(''address'', JStr ''a.x''), (''change'', JObj [(''after'', JObj [(''id'', JStr ''4'')])])],
                JStr ''skipped''])]"

text \<open>The skip set of the attribute comparison.\<close>

definition skipSet :: "string set" where
  "skipSet = {''response_body_base64'', ''content_base64sha256'', ''content_base64sha512'',
              ''content_md5'', ''content_sha1'', ''content_sha256'', ''content_sha512''}"

text \<open>The entries stored under \<open>added\<close>, \<open>removed\<close> or \<open>changed\<close> in a diff record, the
  name an attribute, variable or output entry carries, and the diff record of a section in
  the structured diff.\<close>

definition entries :: "string \<Rightarrow> jmap \<Rightarrow> jvalue list" where
  "entries field diffMap = (case map_of diffMap field of Some (JArr es) \<Rightarrow> es | _ \<Rightarrow> [])"

fun entryName :: "jvalue \<Rightarrow> string option" where
  "entryName (JObj e) = (case map_of e ''name'' of Some (JStr k) \<Rightarrow> Some k | _ \<Rightarrow> None)"
| "entryName _ = None"

definition sectionDiff :: "string \<Rightarrow> jmap \<Rightarrow> jmap" where
  "sectionDiff name diffMap = (case map_of diffMap name of Some (JObj m) \<Rightarrow> m | _ \<Rightarrow> [])"

text \<open>Every entry of the list carries a name of the set.\<close>

definition named :: "string set \<Rightarrow> jmap list \<Rightarrow> bool" where
  "named S es = (\<forall>e \<in> set es. \<exists>k \<in> S. map_of e ''name'' = Some (JStr k))"

text \<open>An attribute is unchanged between two attribute dictionaries when both lack it or
  both have it with deeply equal values.\<close>

definition attrUnchanged :: "jmap \<Rightarrow> jmap \<Rightarrow> string \<Rightarrow> bool" where
  "attrUnchanged origAttrs newAttrs k =
     (case (map_of origAttrs k, map_of newAttrs k) of
        (None, None) \<Rightarrow> True
      | (Some a, Some b) \<Rightarrow> deepEqual a b
      | _ \<Rightarrow> False)"

text \<open>
  Modelled from the spec: the formatting helpers \<^verbatim>\<open>formatValue\<close>,
  \<^verbatim>\<open>formatOutputChange\<close> and \<^verbatim>\<open>printAttributeDiff\<close> are missing from the sources.
  The spec (4.5) fixes the form \<open>~ key: old => new\<close> for a changed output and an indented
  two-line form for a changed attribute, and leaves the text of a value as a presentation
  detail; this renderer prints a string as it is and a placeholder for any other value.
  It serves only to run the functions on concrete plans.
\<close>

definition specRenderer :: renderer where
  "specRenderer =
     \<lparr>formatValue = (\<lambda>v. case v of JStr s \<Rightarrow> s | _ \<Rightarrow> ''<value>''),
      formatOutputChange = (\<lambda>k old new.
         ''~ '' @ k @ '': '' @ (case old of JStr s \<Rightarrow> s | _ \<Rightarrow> ''<value>'') @ '' => ''
           @ (case new of JStr s \<Rightarrow> s | _ \<Rightarrow> ''<value>'') @ nl),
      printAttributeDiff = (\<lambda>diff k old new.
         diff @ ''  ~ '' @ k @ '': '' @ (case old of JStr s \<Rightarrow> s | _ \<Rightarrow> ''<value>'') @ nl
           @ ''    => '' @ (case new of JStr s \<Rightarrow> s | _ \<Rightarrow> ''<value>'') @ nl)\<rparr>"

definition exampleOldAttrs :: jmap where
  "exampleOldAttrs =
     [(''id'', JStr ''i-1''), (''content_md5'', JStr ''aaa''), (''content_sha1'', JStr ''s''),
      (''size'', JNum 1)]"

definition exampleNewAttrs :: jmap where
  "exampleNewAttrs =
     [(''id'', JStr ''i-1''), (''content_md5'', JStr ''bbb''), (''content_sha256'', JStr ''t''),
      (''size'', JNum 2)]"

text \<open>Two plans whose only resource differs in the skipped attribute
  \<open>content_md5\<close>.\<close>

definition exampleOldPlan :: jmap where
  "exampleOldPlan =
     [(''resource_changes'',
        JArr [JObj [(''address'', JStr ''local_file.f''),
                    (''change'', JObj [(''after'',
                       JObj [(''content_md5'', JStr ''aaa''), (''filename'', JStr ''f.txt'')])])]])]"

definition exampleNewPlan :: jmap where
  "exampleNewPlan =
     [(''resource_changes'',
        JArr [JObj [(''address'', JStr ''local_file.f''),
                    (''change'', JObj [(''after'',
                       JObj [(''content_md5'', JStr ''bbb''), (''filename'', JStr ''f.txt'')])])]])]"

text \<open>The entry that reports an added or removed variable or output.\<close>

definition addRemEntry :: "string \<times> jvalue \<Rightarrow> jmap" where
  "addRemEntry = (\<lambda>(k, v). [(''name'', JStr k), (''value'', v)])"

text \<open>Two plans that differ in a key outside the three sections, and two plans of which
  the second has one variable and one output more.\<close>

definition exampleVersionA :: jmap where
  "exampleVersionA = [(''format_version'', JStr ''1.0'')]"

definition exampleVersionB :: jmap where
  "exampleVersionB = [(''format_version'', JStr ''1.1'')]"

definition exampleFewer :: jmap where
  "exampleFewer =
     [(''variables'', JObj [(''region'', JObj [(''value'', JStr ''us-east-1'')])]),
      (''output_changes'', JObj [])]"

definition exampleMore :: jmap where
  "exampleMore =
     [(''variables'', JObj [(''region'', JObj [(''value'', JStr ''us-east-1'')]),
                            (''zone'', JObj [(''value'', JStr ''a'')])]),
      (''planned_values'', JObj [(''outputs'', JObj [(''url'', JStr ''u'')])])]"


section \<open>Properties of the payload locator\<close>

lemma stringsIndex_single:
  "stringsIndex s [c] =
     (if c \<in> set s then int (length (takeWhile (\<lambda>x. x \<noteq> c) s)) else - 1)"
  by (induction s) (auto simp: Let_def)

text \<open>
  Claim C9.  \<open>extractJSONFromOutput\<close> has exactly two behaviours: when the input holds
  an opening brace it returns the suffix of the input that starts at the first one, with
  no error; when it holds none it returns the empty string with \<open>ErrNoJSONOutput\<close>.
\<close>

theorem extractJSONFromOutput_two_cases:
  "extractJSONFromOutput output =
     (if CHR ''{'' \<in> set output
      then (dropWhile (\<lambda>c. c \<noteq> CHR ''{'') output, None)
      else ('''', Some ErrNoJSONOutput))"
  by (simp add: extractJSONFromOutput_def stringsIndex_single Let_def dropWhile_eq_drop)

section \<open>Well-formed values and map updates\<close>

lemma wellFormed_go_index: "wellFormed (JObj m) \<Longrightarrow> wellFormed (go_index m k)"
  by (auto simp: go_index_def split: option.splits dest: map_of_SomeD)

lemma wellFormed_asMap: "wellFormed v \<Longrightarrow> asMap v = Some m \<Longrightarrow> wellFormed (JObj m)"
  by (cases v) auto

lemma map_of_fold_update:
  "distinct (map fst xs) \<Longrightarrow>
   map_of (fold (\<lambda>(k, v) result. AList.update k v result) xs acc) = map_of acc ++ map_of xs"
proof (induction xs arbitrary: acc)
  case Nil
  then show ?case by simp
next
  case (Cons x xs)
  obtain k v where x: "x = (k, v)" by (cases x)
  from Cons.prems x have "map_of xs k = None"
    by (simp add: map_of_eq_None_iff)
  then have eq: "(map_of acc)(k \<mapsto> v) ++ map_of xs = map_of acc ++ map_of ((k, v) # xs)"
    by (auto simp: map_add_def fun_eq_iff split: option.splits)
  from Cons.prems have "distinct (map fst xs)" by simp
  then have "map_of (fold (\<lambda>(k, v) result. AList.update k v result) xs (AList.update k v acc))
      = map_of (AList.update k v acc) ++ map_of xs"
    by (rule Cons.IH)
  then have step: "map_of (fold (\<lambda>(k, v) result. AList.update k v result) xs (AList.update k v acc))
      = (map_of acc)(k \<mapsto> v) ++ map_of xs"
    by (simp only: update_conv')
  have "map_of (fold (\<lambda>(k, v) result. AList.update k v result) (x # xs) acc)
      = map_of (fold (\<lambda>(k, v) result. AList.update k v result) xs (AList.update k v acc))"
    by (simp add: x)
  also note step
  also note eq
  finally show ?case by (simp only: x)
qed

lemma distinct_fold_update:
  "distinct (map fst acc) \<Longrightarrow>
   distinct (map fst (fold (\<lambda>(k, v) result. AList.update k v result) xs acc))"
  by (induction xs arbitrary: acc) (auto simp: distinct_update)

section \<open>Properties of the effective attributes\<close>

lemma wellFormed_valuesField: "wellFormed (JObj m) \<Longrightarrow> distinct (map fst (valuesField m))"
  using wellFormed_asMap [OF wellFormed_go_index, of m "''values''"]
  by (auto simp: valuesField_def split: option.splits)

lemma wellFormed_field:
  "wellFormed (JObj m) \<Longrightarrow> asMap (go_index m k) = Some m' \<Longrightarrow> wellFormed (JObj m')"
  by (rule wellFormed_asMap [OF wellFormed_go_index])

lemma wellFormed_changeAfterField:
  assumes "wellFormed (JObj m)"
  shows "distinct (map fst (changeAfterField m))"
proof (cases "asMap (go_index m ''change'')")
  case None
  then show ?thesis by (simp add: changeAfterField_def)
next
  case (Some change)
  with assms have wf: "wellFormed (JObj change)" by (rule wellFormed_field)
  show ?thesis
  proof (cases "asMap (go_index change ''after'')")
    case None
    with Some show ?thesis by (simp add: changeAfterField_def)
  next
    case (Some after)
    with wf have "wellFormed (JObj after)" by (rule wellFormed_field)
    with Some \<open>asMap (go_index m ''change'') = Some change\<close> show ?thesis
      by (simp add: changeAfterField_def)
  qed
qed

lemma getResourceAttributes_JObj:
  "getResourceAttributes (JObj m) =
     fold (\<lambda>(k, v) result. AList.update k v result) (changeAfterField m)
       (fold (\<lambda>(k, v) result. AList.update k v result) (valuesField m) [])"
  by (simp add: getResourceAttributes_def extractValuesField_def extractChangeAfterField_def
      valuesField_def changeAfterField_def split: option.splits)

text \<open>
  Claim C8.  For a well-formed resource record, the effective attribute dictionary is the
  \<open>values\<close> sub-map overlaid by the \<open>change.after\<close> sub-map, the latter winning on
  every common key; it is empty when the record has neither sub-map, and when the value is
  not a mapping at all.  The result always has distinct keys.
\<close>

theorem getResourceAttributes_overlay:
  assumes "wellFormed resource"
  shows "(case resource of
            JObj resMap \<Rightarrow>
              map_of (getResourceAttributes resource) =
                map_of (valuesField resMap) ++ map_of (changeAfterField resMap)
              \<and> (valuesField resMap = [] \<and> changeAfterField resMap = []
                   \<longrightarrow> getResourceAttributes resource = [])
          | _ \<Rightarrow> getResourceAttributes resource = [])
         \<and> distinct (map fst (getResourceAttributes resource))"
proof (cases resource)
  case (JObj m)
  with assms have wf: "wellFormed (JObj m)" by simp
  show ?thesis
    using wellFormed_valuesField [OF wf] wellFormed_changeAfterField [OF wf]
    by (simp add: JObj getResourceAttributes_JObj map_of_fold_update distinct_fold_update)
qed (simp_all add: getResourceAttributes_def)

theorem getResourceAttributes_overlay_witness:
  "wellFormed (JObj [(''address'', JStr ''a.b''),
                     (''values'', JObj [(''id'', JStr ''1''), (''size'', JNum 2)]),
                     (''change'', JObj [(''after'', JObj [(''size'', JNum 3), (''tag'', JNull)])])])
   \<and> getResourceAttributes
        (JObj [(''address'', JStr ''a.b''),
                     (''values'', JObj [(''id'', JStr ''1''), (''size'', JNum 2)]),
                     (''change'', JObj [(''after'', JObj [(''size'', JNum 3), (''tag'', JNull)])])])
       = [(''id'', JStr ''1''), (''size'', JNum 3), (''tag'', JNull)]
   \<and> map_of (getResourceAttributes
        (JObj [(''address'', JStr ''a.b''),
                     (''values'', JObj [(''id'', JStr ''1''), (''size'', JNum 2)]),
                     (''change'', JObj [(''after'', JObj [(''size'', JNum 3), (''tag'', JNull)])])])) ''size''
       = Some (JNum 3)"
  using getResourceAttributes_overlay [of "JObj [(''address'', JStr ''a.b''),
                     (''values'', JObj [(''id'', JStr ''1''), (''size'', JNum 2)]),
                     (''change'', JObj [(''after'', JObj [(''size'', JNum 3), (''tag'', JNull)])])]"]
  by (simp add: getResourceAttributes_JObj valuesField_def changeAfterField_def go_index_def)

section \<open>Properties of the extracted outputs\<close>

lemma map_of_fold_update_absent:
  "map_of (fold (\<lambda>(k, v) result.
                   if map_of result k = None then AList.update k v result else result) xs acc)
     = map_of xs ++ map_of acc"
proof (induction xs arbitrary: acc)
  case Nil
  then show ?case by simp
next
  case (Cons x xs)
  obtain k v where x: "x = (k, v)" by (cases x)
  have "map_of xs ++ map_of (if map_of acc k = None then AList.update k v acc else acc)
        = map_of ((k, v) # xs) ++ map_of acc"
    by (auto simp: map_add_def fun_eq_iff update_conv' split: option.splits)
  with Cons.IH [of "if map_of acc k = None then AList.update k v acc else acc"] x
  show ?case by (simp only: fold_simps o_apply case_prod_conv)
qed

lemma getOutputs_folds:
  "getOutputs plan =
     fold (\<lambda>(k, v) result. if map_of result k = None then AList.update k v result else result)
       (outputChanges plan)
       (fold (\<lambda>(k, v) result. AList.update k v result) (plannedOutputs plan) [])"
  by (simp add: getOutputs_def plannedOutputs_def outputChanges_def split: option.splits)

lemma wellFormed_plannedOutputs:
  assumes "wellFormed (JObj plan)"
  shows "wellFormed (JObj (plannedOutputs plan))"
proof (cases "asMap (go_index plan ''planned_values'')")
  case None
  then show ?thesis by (simp add: plannedOutputs_def)
next
  case (Some pv)
  with assms have wf: "wellFormed (JObj pv)" by (rule wellFormed_field)
  show ?thesis
  proof (cases "asMap (go_index pv ''outputs'')")
    case None
    with Some show ?thesis by (simp add: plannedOutputs_def)
  next
    case (Some outs)
    with wf have "wellFormed (JObj outs)" by (rule wellFormed_field)
    with Some \<open>asMap (go_index plan ''planned_values'') = Some pv\<close> show ?thesis
      by (simp add: plannedOutputs_def)
  qed
qed

lemma map_of_getOutputs:
  assumes "wellFormed (JObj plan)"
  shows "map_of (getOutputs plan) = map_of (outputChanges plan) ++ map_of (plannedOutputs plan)"
proof -
  from assms have "distinct (map fst (plannedOutputs plan))"
    using wellFormed_plannedOutputs by fastforce
  then show ?thesis
    by (simp add: getOutputs_folds map_of_fold_update_absent map_of_fold_update)
qed

text \<open>
  Claim C1.  In a well-formed plan, the outputs dictionary is the \<open>output_changes\<close>
  mapping overridden by the \<open>planned_values.outputs\<close> mapping: a name that
  \<open>planned_values.outputs\<close> maps to \<open>X\<close> is mapped to \<open>X\<close> whatever
  \<open>output_changes\<close> holds for it, and an entry of \<open>output_changes\<close> is taken only
  for a name that \<open>planned_values.outputs\<close> does not have.
\<close>

theorem getOutputs_planned_values_first:
  assumes "wellFormed (JObj plan)"
  shows "map_of (getOutputs plan) = map_of (outputChanges plan) ++ map_of (plannedOutputs plan)
       \<and> (\<forall>name X. map_of (plannedOutputs plan) name = Some X
             \<longrightarrow> map_of (getOutputs plan) name = Some X)
       \<and> (\<forall>name. map_of (plannedOutputs plan) name = None
             \<longrightarrow> map_of (getOutputs plan) name = map_of (outputChanges plan) name)"
  by (simp add: map_of_getOutputs [OF assms] map_add_def)

theorem getOutputs_planned_values_first_witness:
  "wellFormed (JObj [(''planned_values'', JObj [(''outputs'', JObj [(''url'', JStr ''X'')])]),
                     (''output_changes'', JObj [(''url'', JStr ''Y''), (''arn'', JStr ''Z'')])])
   \<and> map_of (plannedOutputs
         [(''planned_values'', JObj [(''outputs'', JObj [(''url'', JStr ''X'')])]),
          (''output_changes'', JObj [(''url'', JStr ''Y''), (''arn'', JStr ''Z'')])]) ''url''
       = Some (JStr ''X'')
   \<and> map_of (outputChanges
         [(''planned_values'', JObj [(''outputs'', JObj [(''url'', JStr ''X'')])]),
          (''output_changes'', JObj [(''url'', JStr ''Y''), (''arn'', JStr ''Z'')])]) ''url''
       = Some (JStr ''Y'')
   \<and> map_of (getOutputs
         [(''planned_values'', JObj [(''outputs'', JObj [(''url'', JStr ''X'')])]),
          (''output_changes'', JObj [(''url'', JStr ''Y''), (''arn'', JStr ''Z'')])]) ''url''
       = Some (JStr ''X'')
   \<and> getOutputs
         [(''planned_values'', JObj [(''outputs'', JObj [(''url'', JStr ''X'')])]),
          (''output_changes'', JObj [(''url'', JStr ''Y''), (''arn'', JStr ''Z'')])]
       = [(''url'', JStr ''X''), (''arn'', JStr ''Z'')]"
  using getOutputs_planned_values_first
    [of "[(''planned_values'', JObj [(''outputs'', JObj [(''url'', JStr ''X'')])]),
          (''output_changes'', JObj [(''url'', JStr ''Y''), (''arn'', JStr ''Z'')])]"]
  by (simp add: getOutputs_folds plannedOutputs_def outputChanges_def go_index_def)

section \<open>Properties of the extracted resources\<close>

lemma map_of_fold_addressed:
  "map_of (fold (\<lambda>res result.
                  case asMap res of
                    None \<Rightarrow> result
                  | Some resMap \<Rightarrow>
                      (case map_of resMap ''address'' of
                         None \<Rightarrow> result
                       | Some addressVal \<Rightarrow>
                           (case asString addressVal of
                              None \<Rightarrow> result
                            | Some address \<Rightarrow> AList.update address (JObj resMap) result)))
               rs acc) a
   = (case latestRecord a rs of Some m \<Rightarrow> Some (JObj m) | None \<Rightarrow> map_of acc a)"
proof (induction rs arbitrary: acc)
  case Nil
  then show ?case by simp
next
  case (Cons r rs)
  show ?case
  proof (cases "latestRecord a rs")
    case (Some m)
    then show ?thesis by (simp add: Cons.IH)
  next
    case None
    show ?thesis
    proof (cases r)
      case (JObj m)
      show ?thesis
      proof (cases "map_of m ''address''")
        case None
        with \<open>latestRecord a rs = None\<close> JObj show ?thesis by (simp add: Cons.IH)
      next
        case (Some addressVal)
        with \<open>latestRecord a rs = None\<close> JObj show ?thesis
          by (cases addressVal) (auto simp add: Cons.IH update_conv')
      qed
    qed (simp_all add: None Cons.IH)
  qed
qed

lemma processRootModuleResources_lookup:
  "map_of (processRootModuleResources rootModule result) a =
     (case latestRecord a (case asSlice (go_index rootModule ''resources'') of
                             Some resources \<Rightarrow> resources | None \<Rightarrow> []) of
        Some m \<Rightarrow> Some (JObj m)
      | None \<Rightarrow> map_of result a)"
  unfolding processRootModuleResources_def
  by (simp add: map_of_fold_addressed split: option.splits)

lemma processPriorStateResources_lookup:
  "map_of (processPriorStateResources plan result) a =
     (case latestRecord a (priorStateResources plan) of
        Some m \<Rightarrow> Some (JObj m)
      | None \<Rightarrow> map_of result a)"
  unfolding processPriorStateResources_def priorStateResources_def
  by (simp add: processRootModuleResources_lookup split: option.splits)

lemma processPlannedValuesResources_lookup:
  "map_of (processPlannedValuesResources plan result) a =
     (case latestRecord a (plannedResources plan) of
        Some m \<Rightarrow> Some (JObj m)
      | None \<Rightarrow> map_of result a)"
  unfolding processPlannedValuesResources_def plannedResources_def
  by (simp add: processRootModuleResources_lookup split: option.splits)

lemma processResourceChanges_lookup:
  "map_of (processResourceChanges plan result) a =
     (case latestRecord a (resourceChanges plan) of
        Some m \<Rightarrow> Some (JObj m)
      | None \<Rightarrow> map_of result a)"
  unfolding processResourceChanges_def resourceChanges_def
  by (simp add: map_of_fold_addressed split: option.splits)

text \<open>
  Claim C2.  The resources dictionary maps an address to the record of the latest source
  that carries it, in the order prior state, planned values, resource changes (and to the
  last such record within that source): a record of \<open>resource_changes\<close> is retained
  over the records of both other sources, and a planned record over a prior-state record.
\<close>

theorem getResources_latest_source:
  "map_of (getResources plan) a =
     (case latestRecord a (resourceChanges plan) of
        Some m \<Rightarrow> Some (JObj m)
      | None \<Rightarrow>
          (case latestRecord a (plannedResources plan) of
             Some m \<Rightarrow> Some (JObj m)
           | None \<Rightarrow>
               (case latestRecord a (priorStateResources plan) of
                  Some m \<Rightarrow> Some (JObj m)
                | None \<Rightarrow> None)))"
  by (simp add: getResources_def processResourceChanges_lookup
      processPlannedValuesResources_lookup processPriorStateResources_lookup
      split: option.splits)

theorem getResources_latest_source_witness:
  "latestRecord ''a.x'' (priorStateResources examplePlan)
       = Some [(''address'', JStr ''a.x''), (''values'', JObj [(''id'', JStr ''1'')])]
   \<and> latestRecord ''a.x'' (resourceChanges examplePlan)
       = Some [(''address'', JStr ''a.x''), (''change'', JObj [(''after'', JObj [(''id'', JStr ''4'')])])]
   \<and> map_of (getResources examplePlan) ''a.x''
       = Some (JObj [(''address'', JStr ''a.x''), (''change'', JObj [(''after'', JObj [(''id'', JStr ''4'')])])])
   \<and> map_of (getResources examplePlan) ''a.y''
       = Some (JObj [(''address'', JStr ''a.y''), (''values'', JObj [(''id'', JStr ''3'')])])"
  using getResources_latest_source [of examplePlan "''a.x''"]
    getResources_latest_source [of examplePlan "''a.y''"]
  by (simp add: examplePlan_def priorStateResources_def plannedResources_def
      resourceChanges_def go_index_def)

section \<open>Properties of the attribute comparison\<close>

lemma named_Nil [simp]: "named S []"
  by (simp add: named_def)

lemma named_snoc [simp]:
  "named S (es @ [e]) = (named S es \<and> (\<exists>k \<in> S. map_of e ''name'' = Some (JStr k)))"
  by (auto simp: named_def)

lemma fold_inv:
  assumes "I s" and "\<And>x s. x \<in> set xs \<Longrightarrow> I s \<Longrightarrow> I (f x s)"
  shows "I (fold f xs s)"
  using assms by (induction xs arbitrary: s) auto

lemma processPriorityAttributes_named:
  assumes "named S a" "named S r" "named S c" "set ps \<subseteq> S"
  shows "case processPriorityAttributes R diff orig new ps a r c of
           (d', a', r', c') \<Rightarrow> named S a' \<and> named S r' \<and> named S c'"
  unfolding processPriorityAttributes_def
  by (rule fold_inv) (use assms in \<open>auto simp: Let_def split: if_splits\<close>)

lemma processRegularAttributeChanges_named:
  assumes "named S a" "named S r" "named S c"
    and "\<And>k. \<not> contains ps k \<Longrightarrow> \<not> go_index_bool skip k \<Longrightarrow> k \<in> S"
  shows "case processRegularAttributeChanges R diff orig new ps skip a r c of
           (d', a', r', c') \<Rightarrow> named S a' \<and> named S r' \<and> named S c'"
  unfolding processRegularAttributeChanges_def
  by (rule fold_inv) (use assms in \<open>auto simp: Let_def split: if_splits\<close>)

lemma processAddedAttributes_named:
  assumes "named S a"
    and "\<And>k. \<not> contains ps k \<Longrightarrow> \<not> go_index_bool skip k \<Longrightarrow> k \<in> S"
  shows "case processAddedAttributes R diff orig new ps skip a of
           (d', a') \<Rightarrow> named S a'"
  unfolding processAddedAttributes_def
  by (rule fold_inv) (use assms in \<open>auto simp: Let_def split: if_splits\<close>)

lemma go_index_bool_skip:
  "go_index_bool [(''response_body_base64'', True),
                       (''content_base64sha256'', True),
                       (''content_base64sha512'', True),
                       (''content_md5'', True),
                       (''content_sha1'', True),
                       (''content_sha256'', True),
                       (''content_sha512'', True)] k = (k \<in> skipSet)"
  by (simp add: go_index_bool_def skipSet_def)

lemma processAttributeDifferences_shape:
  "\<exists>d a r c. processAttributeDifferences R diff orig new =
      (d, [(''added'', JArr (map JObj a)), (''removed'', JArr (map JObj r)),
           (''changed'', JArr (map JObj c))])
    \<and> named (- skipSet) a \<and> named (- skipSet) r \<and> named (- skipSet) c"
proof -
  let ?ps = "[''id'', ''url'', ''content'']"
  let ?skip = "[(''response_body_base64'', True),
                       (''content_base64sha256'', True),
                       (''content_base64sha512'', True),
                       (''content_md5'', True),
                       (''content_sha1'', True),
                       (''content_sha256'', True),
                       (''content_sha512'', True)]"
  obtain d1 a1 r1 c1 where p1:
    "processPriorityAttributes R diff orig new ?ps [] [] [] = (d1, a1, r1, c1)"
    by (metis prod_cases4)
  have n1: "named (- skipSet) a1 \<and> named (- skipSet) r1 \<and> named (- skipSet) c1"
    using processPriorityAttributes_named [of "- skipSet" "[]" "[]" "[]" ?ps R diff orig new]
    by (simp add: p1 skipSet_def)
  obtain d2 a2 r2 c2 where p2:
    "processRegularAttributeChanges R d1 orig new ?ps ?skip a1 r1 c1 = (d2, a2, r2, c2)"
    by (metis prod_cases4)
  have n2: "named (- skipSet) a2 \<and> named (- skipSet) r2 \<and> named (- skipSet) c2"
    using processRegularAttributeChanges_named [of "- skipSet" a1 r1 c1 ?ps ?skip R d1 orig new] n1
    by (simp add: p2 go_index_bool_skip)
  obtain d3 a3 where p3:
    "processAddedAttributes R d2 orig new ?ps ?skip a2 = (d3, a3)"
    by (metis prod.exhaust)
  have n3: "named (- skipSet) a3"
    using processAddedAttributes_named [of "- skipSet" a2 ?ps ?skip R d2 orig new] n2
    by (simp add: p3 go_index_bool_skip)
  have "processAttributeDifferences R diff orig new =
      (d3, [(''added'', JArr (map JObj a3)), (''removed'', JArr (map JObj r2)),
           (''changed'', JArr (map JObj c2))])"
    by (simp add: processAttributeDifferences_def p1 p2 p3)
  with n2 n3 show ?thesis by blast
qed

text \<open>
  Claim C3.  For every pair of attribute dictionaries and every key of the skip set, no
  entry of the \<open>added\<close>, \<open>removed\<close> or \<open>changed\<close> collection that
  \<open>processAttributeDifferences\<close> returns carries that key as its name.
\<close>

theorem skip_attributes_never_reported:
  assumes "k \<in> skipSet"
  shows "Some k \<notin> entryName ` set (entries ''added'' (snd (processAttributeDifferences R diff origAttrs newAttrs)))
       \<and> Some k \<notin> entryName ` set (entries ''removed'' (snd (processAttributeDifferences R diff origAttrs newAttrs)))
       \<and> Some k \<notin> entryName ` set (entries ''changed'' (snd (processAttributeDifferences R diff origAttrs newAttrs)))"
proof -
  obtain d a r c where res: "processAttributeDifferences R diff origAttrs newAttrs =
      (d, [(''added'', JArr (map JObj a)), (''removed'', JArr (map JObj r)),
           (''changed'', JArr (map JObj c))])"
    and n: "named (- skipSet) a" "named (- skipSet) r" "named (- skipSet) c"
    using processAttributeDifferences_shape by blast
  have "Some k \<notin> entryName ` JObj ` set es" if "named (- skipSet) es" for es
    using that assms by (fastforce simp: named_def)
  with n show ?thesis by (simp add: res entries_def)
qed

lemmas attr_eval =
  processAttributeDifferences_def processPriorityAttributes_def
  processRegularAttributeChanges_def processAddedAttributes_def
  go_index_def go_index_bool_def Let_def

theorem skip_attributes_never_reported_witness:
  "''content_md5'' \<in> skipSet
   \<and> snd (processAttributeDifferences specRenderer [] exampleOldAttrs exampleNewAttrs)
       = [(''added'', JArr []), (''removed'', JArr []),
          (''changed'', JArr [JObj [(''name'', JStr ''size''), (''old'', JNum 1), (''new'', JNum 2)]])]
   \<and> Some ''content_md5'' \<notin> entryName ` set (entries ''changed''
         (snd (processAttributeDifferences specRenderer [] exampleOldAttrs exampleNewAttrs)))"
  using skip_attributes_never_reported
    [of "''content_md5''" specRenderer "[]" exampleOldAttrs exampleNewAttrs]
  by (simp add: skipSet_def exampleOldAttrs_def exampleNewAttrs_def attr_eval)

section \<open>Resources that differ only in skipped attributes\<close>

lemma distinct_getResourceAttributes: "distinct (map fst (getResourceAttributes r))"
  by (cases r) (simp_all add: getResourceAttributes_JObj distinct_fold_update,
      simp_all add: getResourceAttributes_def)

lemma processPriorityAttributes_unchanged:
  assumes "\<And>k. k \<in> set ps \<Longrightarrow> attrUnchanged orig new k"
  shows "snd (processPriorityAttributes R diff orig new ps [] [] []) = ([], [], [])"
proof -
  have "case processPriorityAttributes R diff orig new ps [] [] [] of
          (d, a, r, c) \<Rightarrow> a = [] \<and> r = [] \<and> c = []"
    unfolding processPriorityAttributes_def
  proof (rule fold_inv, goal_cases)
    case 1
    show ?case by simp
  next
    case (2 k s)
    then have "attrUnchanged orig new k" by (intro assms)
    with 2 show ?case
      by (auto simp: Let_def attrUnchanged_def go_index_def split: option.splits)
  qed
  then show ?thesis by (auto split: prod.splits)
qed

lemma processRegularAttributeChanges_unchanged:
  assumes "distinct (map fst orig)"
    and "\<And>k. \<not> go_index_bool skip k \<Longrightarrow> attrUnchanged orig new k"
  shows "snd (processRegularAttributeChanges R diff orig new ps skip [] [] []) = ([], [], [])"
proof -
  have "case processRegularAttributeChanges R diff orig new ps skip [] [] [] of
          (d, a, r, c) \<Rightarrow> a = [] \<and> r = [] \<and> c = []"
    unfolding processRegularAttributeChanges_def
  proof (rule fold_inv, goal_cases)
    case 1
    show ?case by simp
  next
    case (2 x s)
    obtain k v where x: "x = (k, v)" by (cases x)
    with 2 assms(1) have lk: "map_of orig k = Some v" by simp
    show ?case
    proof (cases "go_index_bool skip k")
      case True
      with 2 x show ?thesis by (auto split: prod.splits)
    next
      case False
      then have "attrUnchanged orig new k" by (rule assms(2))
      with lk obtain b where "map_of new k = Some b" "deepEqual v b"
        by (auto simp: attrUnchanged_def split: option.splits)
      with 2 x show ?thesis by (auto simp: go_index_def split: prod.splits)
    qed
  qed
  then show ?thesis by (auto split: prod.splits)
qed

lemma processAddedAttributes_unchanged:
  assumes "\<And>k. \<not> go_index_bool skip k \<Longrightarrow> attrUnchanged orig new k"
  shows "snd (processAddedAttributes R diff orig new ps skip []) = []"
proof -
  have "case processAddedAttributes R diff orig new ps skip [] of (d, a) \<Rightarrow> a = []"
    unfolding processAddedAttributes_def
  proof (rule fold_inv, goal_cases)
    case 1
    show ?case by simp
  next
    case (2 x s)
    obtain k v where x: "x = (k, v)" by (cases x)
    with 2 have "map_of new k \<noteq> None"
      by (metis fst_conv image_eqI map_of_eq_None_iff)
    then have "\<not> (map_of orig k = None \<and> \<not> go_index_bool skip k)"
      using assms [of k] by (auto simp: attrUnchanged_def split: option.splits)
    with 2 x show ?case by (auto split: prod.splits)
  qed
  then show ?thesis by (auto split: prod.splits)
qed

lemma processAttributeDifferences_unchanged:
  assumes "distinct (map fst orig)"
    and "\<And>k. k \<notin> skipSet \<Longrightarrow> attrUnchanged orig new k"
  shows "snd (processAttributeDifferences R diff orig new) =
           [(''added'', JArr []), (''removed'', JArr []), (''changed'', JArr [])]"
proof -
  let ?ps = "[''id'', ''url'', ''content'']"
  let ?skip = "[(''response_body_base64'', True),
                       (''content_base64sha256'', True),
                       (''content_base64sha512'', True),
                       (''content_md5'', True),
                       (''content_sha1'', True),
                       (''content_sha256'', True),
                       (''content_sha512'', True)]"
  have un: "attrUnchanged orig new k" if "\<not> go_index_bool ?skip k" for k
  proof -
    from that have "k \<notin> skipSet" by (simp add: go_index_bool_skip)
    then show ?thesis by (rule assms(2))
  qed
  have pr: "attrUnchanged orig new k" if "k \<in> set ?ps" for k
  proof -
    from that have "k \<notin> skipSet" by (auto simp: skipSet_def)
    then show ?thesis by (rule assms(2))
  qed
  have "snd (processPriorityAttributes R diff orig new ?ps [] [] []) = ([], [], [])"
    using pr by (rule processPriorityAttributes_unchanged)
  then obtain d1 where p1:
    "processPriorityAttributes R diff orig new ?ps [] [] [] = (d1, [], [], [])"
    by (metis prod.collapse)
  have "snd (processRegularAttributeChanges R d1 orig new ?ps ?skip [] [] []) = ([], [], [])"
    using assms(1) un by (rule processRegularAttributeChanges_unchanged)
  then obtain d2 where p2:
    "processRegularAttributeChanges R d1 orig new ?ps ?skip [] [] [] = (d2, [], [], [])"
    by (metis prod.collapse)
  have "snd (processAddedAttributes R d2 orig new ?ps ?skip []) = []"
    using un by (rule processAddedAttributes_unchanged)
  then obtain d3 where p3:
    "processAddedAttributes R d2 orig new ?ps ?skip [] = (d3, [])"
    by (metis prod.collapse)
  show ?thesis
    unfolding processAttributeDifferences_def Let_def p1 split_conv p2 p3
    by simp
qed

lemma fold_snd_mono:
  assumes "\<And>y s. set (snd s) \<subseteq> set (snd (f y s))"
  shows "set (snd s) \<subseteq> set (snd (fold f xs s))"
proof (induction xs arbitrary: s)
  case Nil
  show ?case by simp
next
  case (Cons x xs)
  have "set (snd s) \<subseteq> set (snd (f x s))" by (rule assms)
  also have "\<dots> \<subseteq> set (snd (fold f xs (f x s)))" by (rule Cons.IH)
  finally show ?case by simp
qed

lemma fold_snd_mem:
  assumes "x \<in> set xs"
    and "\<And>s. e \<in> set (snd (f x s))"
    and "\<And>y s. set (snd s) \<subseteq> set (snd (f y s))"
  shows "e \<in> set (snd (fold f xs s))"
  using assms(1)
proof (induction xs arbitrary: s)
  case Nil
  then show ?case by simp
next
  case (Cons y ys)
  show ?case
  proof (cases "x = y")
    case True
    have "e \<in> set (snd (f y s))" unfolding True [symmetric] by (rule assms(2))
    with fold_snd_mono [of f "f y s" ys, OF assms(3)] show ?thesis by auto
  next
    case False
    with Cons show ?thesis by simp
  qed
qed

lemma processChangedResources_mem:
  assumes "(a, ra) \<in> set origResources"
    and "map_of newResources a = Some rb"
    and "\<not> deepEqual ra rb"
    and "\<And>k. k \<notin> skipSet \<Longrightarrow>
           attrUnchanged (getResourceAttributes ra) (getResourceAttributes rb) k"
  shows "[(''address'', JStr a),
          (''attributes'', JObj [(''added'', JArr []), (''removed'', JArr []),
                                 (''changed'', JArr [])])]
         \<in> set (snd (processChangedResources R diff origResources newResources))"
  unfolding processChangedResources_def Let_def
proof (rule fold_snd_mem [OF assms(1)], goal_cases)
  case (1 s)
  have "snd (processAttributeDifferences R d (getResourceAttributes ra) (getResourceAttributes rb))
          = [(''added'', JArr []), (''removed'', JArr []), (''changed'', JArr [])]" for d
    using distinct_getResourceAttributes assms(4)
    by (rule processAttributeDifferences_unchanged)
  with assms(2,3) show ?case
    by (cases s) (simp add: go_index_def split_beta)
next
  case (2 y s)
  show ?case by (cases s; cases y) (auto simp: split_beta)
qed

lemma deepEqual_JObj_lookup:
  assumes "deepEqual (JObj m1) (JObj m2)" and "(k, v1) \<in> set m1"
  shows "\<exists>v2. map_of m2 k = Some v2 \<and> deepEqual v1 v2"
  using assms by (auto split: option.splits)

lemma generatePlanDiff_hasDiff:
  "snd (snd (generatePlanDiff R origPlan newPlan)) =
     (snd (snd (compareVariables R origPlan newPlan))
      \<or> snd (snd (compareResourceSections R origPlan newPlan))
      \<or> snd (snd (compareOutputSections R origPlan newPlan)))"
  unfolding generatePlanDiff_def Let_def split_beta
  by simp

lemma generatePlanDiff_resources:
  "snd (snd (compareResourceSections R origPlan newPlan)) \<Longrightarrow>
   sectionDiff ''resources'' (fst (snd (generatePlanDiff R origPlan newPlan)))
     = fst (snd (compareResourceSections R origPlan newPlan))"
  unfolding generatePlanDiff_def Let_def split_beta sectionDiff_def
  by (simp add: update_conv')

lemma compareResourceSections_flag:
  "snd (snd (compareResourceSections R origPlan newPlan)) =
     (\<not> deepEqual (JObj (getResources origPlan)) (JObj (getResources newPlan)))"
  by (simp add: compareResourceSections_def Let_def split_beta del: deepEqual.simps)

lemma compareResourceSections_map:
  "\<not> deepEqual (JObj (getResources origPlan)) (JObj (getResources newPlan)) \<Longrightarrow>
   fst (snd (compareResourceSections R origPlan newPlan)) =
     snd (compareResources R (getResources origPlan) (getResources newPlan))"
  by (simp add: compareResourceSections_def Let_def split_beta del: deepEqual.simps)

text \<open>
  Claim C10.  When both resource dictionaries hold an address with records that are not
  deeply equal, while every attribute outside the skip set is unchanged between the two
  effective attribute dictionaries, the plans are reported as different and the address is
  an entry of the \<open>changed\<close> collection of the resources section, with an attribute diff
  whose \<open>added\<close>, \<open>removed\<close> and \<open>changed\<close> lists are empty.
\<close>

theorem skipped_changes_still_reported:
  assumes "map_of (getResources origPlan) a = Some ra"
    and "map_of (getResources newPlan) a = Some rb"
    and "\<not> deepEqual ra rb"
    and "\<forall>k. k \<notin> skipSet \<longrightarrow>
           attrUnchanged (getResourceAttributes ra) (getResourceAttributes rb) k"
  shows "snd (snd (generatePlanDiff R origPlan newPlan)) = True
       \<and> JObj [(''address'', JStr a),
                (''attributes'', JObj [(''added'', JArr []), (''removed'', JArr []),
                                       (''changed'', JArr [])])]
           \<in> set (entries ''changed''
                    (sectionDiff ''resources'' (fst (snd (generatePlanDiff R origPlan newPlan)))))"
proof -
  from assms(1) have mem: "(a, ra) \<in> set (getResources origPlan)" by (rule map_of_SomeD)
  have ne: "\<not> deepEqual (JObj (getResources origPlan)) (JObj (getResources newPlan))"
  proof
    assume "deepEqual (JObj (getResources origPlan)) (JObj (getResources newPlan))"
    from deepEqual_JObj_lookup [OF this mem] assms(2,3) show False by simp
  qed
  have ch: "[(''address'', JStr a),
          (''attributes'', JObj [(''added'', JArr []), (''removed'', JArr []),
                                 (''changed'', JArr [])])]
         \<in> set (snd (processChangedResources R d (getResources origPlan) (getResources newPlan)))"
    for d
    using mem assms(2,3) assms(4) by (intro processChangedResources_mem) auto
  have cr: "entries ''changed'' (snd (compareResources R orig new)) =
      map JObj (snd (processChangedResources R
        (fst (processResourceAdditionsAndRemovals [] orig new)) orig new))" for orig new
    by (simp add: compareResources_def entries_def split_beta)
  from ne have flag: "snd (snd (compareResourceSections R origPlan newPlan))"
    by (simp add: compareResourceSections_flag)
  have "sectionDiff ''resources'' (fst (snd (generatePlanDiff R origPlan newPlan)))
        = snd (compareResources R (getResources origPlan) (getResources newPlan))"
    using ne by (simp add: generatePlanDiff_resources [OF flag] compareResourceSections_map)
  moreover have "snd (snd (generatePlanDiff R origPlan newPlan))"
    using flag by (simp add: generatePlanDiff_hasDiff)
  ultimately show ?thesis
    using ch by (simp add: cr)
qed

lemmas res_eval =
  getResources_def processPriorStateResources_def processPlannedValuesResources_def
  processResourceChanges_def processRootModuleResources_def go_index_def

theorem skipped_changes_still_reported_witness:
  "map_of (getResources exampleOldPlan) ''local_file.f''
     = Some (JObj [(''address'', JStr ''local_file.f''),
                    (''change'', JObj [(''after'',
                       JObj [(''content_md5'', JStr ''aaa''), (''filename'', JStr ''f.txt'')])])])
   \<and> map_of (getResources exampleNewPlan) ''local_file.f''
     = Some (JObj [(''address'', JStr ''local_file.f''),
                    (''change'', JObj [(''after'',
                       JObj [(''content_md5'', JStr ''bbb''), (''filename'', JStr ''f.txt'')])])])
   \<and> snd (snd (generatePlanDiff specRenderer exampleOldPlan exampleNewPlan)) = True
   \<and> JObj [(''address'', JStr ''local_file.f''),
            (''attributes'', JObj [(''added'', JArr []), (''removed'', JArr []),
                                   (''changed'', JArr [])])]
       \<in> set (entries ''changed'' (sectionDiff ''resources''
                 (fst (snd (generatePlanDiff specRenderer exampleOldPlan exampleNewPlan)))))"
proof -
  let ?ra = "JObj [(''address'', JStr ''local_file.f''),
                    (''change'', JObj [(''after'',
                       JObj [(''content_md5'', JStr ''aaa''), (''filename'', JStr ''f.txt'')])])]"
  let ?rb = "JObj [(''address'', JStr ''local_file.f''),
                    (''change'', JObj [(''after'',
                       JObj [(''content_md5'', JStr ''bbb''), (''filename'', JStr ''f.txt'')])])]"
  have a: "map_of (getResources exampleOldPlan) ''local_file.f'' = Some ?ra"
    by (simp add: exampleOldPlan_def res_eval)
  have b: "map_of (getResources exampleNewPlan) ''local_file.f'' = Some ?rb"
    by (simp add: exampleNewPlan_def res_eval)
  have c: "\<not> deepEqual ?ra ?rb"
    by simp
  have d: "\<forall>k. k \<notin> skipSet \<longrightarrow>
      attrUnchanged (getResourceAttributes ?ra) (getResourceAttributes ?rb) k"
    by (simp add: attrUnchanged_def skipSet_def getResourceAttributes_JObj valuesField_def
        changeAfterField_def go_index_def)
  from skipped_changes_still_reported [OF a b c d, of specRenderer] a b
  show ?thesis by simp
qed

section \<open>Comparing a plan with itself\<close>

lemma deepEqual_refl: "wellFormed v \<Longrightarrow> deepEqual v v"
proof (induction v)
  case (JArr xs)
  then show ?case by (auto simp: set_zip) 
next
  case (JObj m)
  show ?case
  proof (simp, intro ballI)
    fix p assume p: "p \<in> set m"
    obtain k v where kv: "p = (k, v)" by (cases p)
    from JObj.prems p kv have "map_of m k = Some v" "wellFormed v" by auto
    moreover from p kv have "deepEqual v v" if "wellFormed v"
      using JObj.IH [of p v] that by simp
    ultimately show "case p of (k, v1) \<Rightarrow>
        case map_of m k of None \<Rightarrow> False | Some v2 \<Rightarrow> deepEqual v1 v2"
      by (simp add: kv)
  qed
qed simp_all

lemma set_update_subset: "set (AList.update k v m) \<subseteq> insert (k, v) (set m)"
  by (induction m) auto

lemma wellFormed_update:
  "wellFormed (JObj m) \<Longrightarrow> wellFormed v \<Longrightarrow> wellFormed (JObj (AList.update k v m))"
  using set_update_subset [of k v m] by (auto simp: distinct_update)

lemma wellFormed_lookup: "wellFormed (JObj m) \<Longrightarrow> map_of m k = Some v \<Longrightarrow> wellFormed v"
  by (auto dest: map_of_SomeD)

lemma wellFormed_asSlice: "wellFormed v \<Longrightarrow> asSlice v = Some xs \<Longrightarrow> x \<in> set xs \<Longrightarrow> wellFormed x"
  by (cases v) auto

lemma wellFormed_getVariables:
  assumes "wellFormed (JObj plan)"
  shows "wellFormed (JObj (getVariables plan))"
proof (cases "asMap (go_index plan ''variables'')")
  case None
  then show ?thesis by (simp add: getVariables_def)
next
  case (Some vars)
  with assms have wf: "wellFormed (JObj vars)" by (rule wellFormed_field)
  have "wellFormed (JObj (fold (\<lambda>(k, v) result.
                  case asMap v of
                    Some varMap \<Rightarrow>
                      (case map_of varMap ''value'' of
                         Some val \<Rightarrow> AList.update k val result
                       | None \<Rightarrow> result)
                  | None \<Rightarrow> result) vars []))"
  proof (rule fold_inv, goal_cases)
    case 1
    show ?case by simp
  next
    case (2 x s)
    obtain k v where x: "x = (k, v)" by (cases x)
    with 2 wf have "wellFormed v" by auto
    then have "wellFormed val" if "asMap v = Some varMap" "map_of varMap ''value'' = Some val"
      for varMap val
      using that wellFormed_asMap wellFormed_lookup by blast
    with 2 x show ?case
      by (auto split: option.splits intro: wellFormed_update simp del: wellFormed.simps)
  qed
  with Some show ?thesis by (simp add: getVariables_def)
qed

lemma wellFormed_fold_addressed:
  assumes "wellFormed (JObj acc)" and "\<And>r. r \<in> set rs \<Longrightarrow> wellFormed r"
  shows "wellFormed (JObj (fold (\<lambda>res result.
                  case asMap res of
                    None \<Rightarrow> result
                  | Some resMap \<Rightarrow>
                      (case map_of resMap ''address'' of
                         None \<Rightarrow> result
                       | Some addressVal \<Rightarrow>
                           (case asString addressVal of
                              None \<Rightarrow> result
                            | Some address \<Rightarrow> AList.update address (JObj resMap) result)))
               rs acc))"
proof (rule fold_inv, goal_cases)
  case 1
  show ?case by (rule assms(1))
next
  case (2 x s)
  then have "wellFormed x" by (intro assms(2))
  then have "wellFormed (JObj resMap)" if "asMap x = Some resMap" for resMap
    using that by (rule wellFormed_asMap)
  with 2 show ?case
    by (auto split: option.splits intro: wellFormed_update simp del: wellFormed.simps)
qed

lemma wellFormed_processRootModuleResources:
  assumes "wellFormed (JObj rootModule)" and "wellFormed (JObj result)"
  shows "wellFormed (JObj (processRootModuleResources rootModule result))"
proof (cases "asSlice (go_index rootModule ''resources'')")
  case None
  with assms(2) show ?thesis by (simp add: processRootModuleResources_def)
next
  case (Some resources)
  from assms(1) have "wellFormed (go_index rootModule ''resources'')"
    by (rule wellFormed_go_index)
  then have "\<And>r. r \<in> set resources \<Longrightarrow> wellFormed r"
    using Some by (rule wellFormed_asSlice)
  with assms(2) Some show ?thesis
    unfolding processRootModuleResources_def
    by (simp add: wellFormed_fold_addressed del: wellFormed.simps)
qed

lemma wellFormed_processPriorStateResources:
  assumes "wellFormed (JObj plan)" and "wellFormed (JObj result)"
  shows "wellFormed (JObj (processPriorStateResources plan result))"
proof -
  have "wellFormed (JObj (processRootModuleResources rootModule result))"
    if "asMap (go_index plan ''prior_state'') = Some priorState"
      and "asMap (go_index priorState ''values'') = Some vals"
      and "asMap (go_index vals ''root_module'') = Some rootModule"
    for priorState vals rootModule
  proof -
    from assms(1) that(1) have "wellFormed (JObj priorState)" by (rule wellFormed_field)
    then have "wellFormed (JObj vals)" using that(2) by (rule wellFormed_field)
    then have "wellFormed (JObj rootModule)" using that(3) by (rule wellFormed_field)
    then show ?thesis using assms(2) by (rule wellFormed_processRootModuleResources)
  qed
  with assms(2) show ?thesis
    unfolding processPriorStateResources_def
    by (simp split: option.splits del: wellFormed.simps)
qed

lemma wellFormed_processPlannedValuesResources:
  assumes "wellFormed (JObj plan)" and "wellFormed (JObj result)"
  shows "wellFormed (JObj (processPlannedValuesResources plan result))"
proof -
  have "wellFormed (JObj (processRootModuleResources rootModule result))"
    if "asMap (go_index plan ''planned_values'') = Some plannedValues"
      and "asMap (go_index plannedValues ''root_module'') = Some rootModule"
    for plannedValues rootModule
  proof -
    from assms(1) that(1) have "wellFormed (JObj plannedValues)" by (rule wellFormed_field)
    then have "wellFormed (JObj rootModule)" using that(2) by (rule wellFormed_field)
    then show ?thesis using assms(2) by (rule wellFormed_processRootModuleResources)
  qed
  with assms(2) show ?thesis
    unfolding processPlannedValuesResources_def
    by (simp split: option.splits del: wellFormed.simps)
qed

lemma wellFormed_processResourceChanges:
  assumes "wellFormed (JObj plan)" and "wellFormed (JObj result)"
  shows "wellFormed (JObj (processResourceChanges plan result))"
proof (cases "asSlice (go_index plan ''resource_changes'')")
  case None
  with assms(2) show ?thesis by (simp add: processResourceChanges_def)
next
  case (Some changes)
  from assms(1) have "wellFormed (go_index plan ''resource_changes'')"
    by (rule wellFormed_go_index)
  then have "\<And>r. r \<in> set changes \<Longrightarrow> wellFormed r"
    using Some by (rule wellFormed_asSlice)
  with assms(2) Some show ?thesis
    unfolding processResourceChanges_def
    by (simp add: wellFormed_fold_addressed del: wellFormed.simps)
qed

lemma wellFormed_getResources:
  assumes "wellFormed (JObj plan)"
  shows "wellFormed (JObj (getResources plan))"
  unfolding getResources_def Let_def
  by (intro wellFormed_processResourceChanges wellFormed_processPlannedValuesResources
      wellFormed_processPriorStateResources assms) simp

lemma wellFormed_outputChanges:
  assumes "wellFormed (JObj plan)"
  shows "wellFormed (JObj (outputChanges plan))"
proof (cases "asMap (go_index plan ''output_changes'')")
  case None
  then show ?thesis by (simp add: outputChanges_def)
next
  case (Some changes)
  with assms have "wellFormed (JObj changes)" by (rule wellFormed_field)
  with Some show ?thesis by (simp add: outputChanges_def)
qed

lemma wellFormed_fold_assign:
  assumes "wellFormed (JObj xs)" and "wellFormed (JObj acc)"
  shows "wellFormed (JObj (fold (\<lambda>(k, v) result. AList.update k v result) xs acc))"
proof (rule fold_inv, goal_cases)
  case 1
  show ?case by (rule assms(2))
next
  case (2 x s)
  obtain k v where x: "x = (k, v)" by (cases x)
  with 2 assms(1) have "wellFormed v" by auto
  with 2(2) have "wellFormed (JObj (AList.update k v s))" by (rule wellFormed_update)
  then show ?case by (simp add: x del: wellFormed.simps)
qed

lemma wellFormed_fold_assign_absent:
  assumes "wellFormed (JObj xs)" and "wellFormed (JObj acc)"
  shows "wellFormed (JObj (fold (\<lambda>(k, v) result.
        if map_of result k = None then AList.update k v result else result) xs acc))"
proof (rule fold_inv, goal_cases)
  case 1
  show ?case by (rule assms(2))
next
  case (2 x s)
  obtain k v where x: "x = (k, v)" by (cases x)
  with 2 assms(1) have "wellFormed v" by auto
  with 2(2) have "wellFormed (JObj (AList.update k v s))" by (rule wellFormed_update)
  with 2(2) show ?case by (simp add: x del: wellFormed.simps)
qed

lemma wellFormed_getOutputs:
  assumes "wellFormed (JObj plan)"
  shows "wellFormed (JObj (getOutputs plan))"
  unfolding getOutputs_folds
  by (intro wellFormed_fold_assign_absent wellFormed_fold_assign wellFormed_outputChanges
      wellFormed_plannedOutputs assms) simp

lemma compareVariables_same:
  "wellFormed (JObj plan) \<Longrightarrow> compareVariables R plan plan = ('''', [], False)"
  by (simp add: compareVariables_def deepEqual_refl wellFormed_getVariables
      del: deepEqual.simps wellFormed.simps)

lemma compareResourceSections_same:
  "wellFormed (JObj plan) \<Longrightarrow> compareResourceSections R plan plan = ('''', [], False)"
  by (simp add: compareResourceSections_def deepEqual_refl wellFormed_getResources
      del: deepEqual.simps wellFormed.simps)

lemma compareOutputSections_same:
  "wellFormed (JObj plan) \<Longrightarrow> compareOutputSections R plan plan = ('''', [], False)"
  by (simp add: compareOutputSections_def deepEqual_refl wellFormed_getOutputs
      del: deepEqual.simps wellFormed.simps)

lemma generatePlanDiff_same:
  "wellFormed (JObj plan) \<Longrightarrow> generatePlanDiff R plan plan = ('''', [], False)"
  by (simp add: generatePlanDiff_def compareVariables_same compareResourceSections_same
      compareOutputSections_same del: wellFormed.simps)

text \<open>
  Claim C4.  Comparing a well-formed document with itself reports no difference: the flag is
  false, the textual report is empty and the structured diff is the empty map, so it has
  none of the keys \<open>variables\<close>, \<open>resources\<close>, \<open>outputs\<close>.
\<close>

theorem generatePlanDiff_self:
  assumes "wellFormed (JObj d)"
  shows "generatePlanDiff R d d = ('''', [], False)
       \<and> map_of (fst (snd (generatePlanDiff R d d))) ''variables'' = None
       \<and> map_of (fst (snd (generatePlanDiff R d d))) ''resources'' = None
       \<and> map_of (fst (snd (generatePlanDiff R d d))) ''outputs'' = None"
  using assms by (simp add: generatePlanDiff_same del: wellFormed.simps)

theorem generatePlanDiff_self_witness:
  "wellFormed (JObj examplePlan)
   \<and> generatePlanDiff specRenderer examplePlan examplePlan = ('''', [], False)"
  using generatePlanDiff_self [of examplePlan specRenderer]
  by (simp add: examplePlan_def)

section \<open>Added and removed variables and outputs\<close>

lemma fold_snd_filter:
  "fold (\<lambda>(k, v) (diff, acc). if P k then (F diff k v, acc @ [E k v]) else (diff, acc))
       xs (d, a) = (d', a')
   \<Longrightarrow> a' = a @ map (\<lambda>(k, v). E k v) (filter (\<lambda>(k, v). P k) xs)"
proof (induction xs arbitrary: d a)
  case Nil
  then show ?case by simp
next
  case (Cons x xs)
  obtain k v where x: "x = (k, v)" by (cases x)
  show ?case
  proof (cases "P k")
    case True
    with Cons.prems x have
      "fold (\<lambda>(k, v) (diff, acc). if P k then (F diff k v, acc @ [E k v]) else (diff, acc))
         xs (F d k v, a @ [E k v]) = (d', a')"
      by simp
    from Cons.IH [OF this] True x show ?thesis by simp
  next
    case False
    with Cons.prems x have
      "fold (\<lambda>(k, v) (diff, acc). if P k then (F diff k v, acc @ [E k v]) else (diff, acc))
         xs (d, a) = (d', a')"
      by simp
    from Cons.IH [OF this] False x show ?thesis by simp
  qed
qed

lemma deepEqual_JObj_keys:
  assumes "deepEqual (JObj m1) (JObj m2)"
    and "distinct (map fst m1)" and "distinct (map fst m2)"
  shows "fst ` set m1 = fst ` set m2"
proof (rule card_subset_eq)
  show "finite (fst ` set m2)" by simp
  show "fst ` set m1 \<subseteq> fst ` set m2"
  proof
    fix k assume "k \<in> fst ` set m1"
    then obtain v where "(k, v) \<in> set m1" by auto
    with assms(1) have "map_of m2 k \<noteq> None" by (auto split: option.splits)
    then show "k \<in> fst ` set m2" by (simp add: map_of_eq_None_iff)
  qed
  from assms(1) have "length m1 = length m2" by simp
  moreover have "card (fst ` set m1) = length m1" "card (fst ` set m2) = length m2"
    using assms(2,3) distinct_card [of "map fst m1"] distinct_card [of "map fst m2"] by simp_all
  ultimately show "card (fst ` set m1) = card (fst ` set m2)" by simp
qed

lemma filter_absent_Nil:
  assumes "fst ` set m2 \<subseteq> fst ` set m1"
  shows "filter (\<lambda>(k, v). map_of m1 k = None) m2 = []"
proof -
  have "map_of m1 k \<noteq> None" if "(k, v) \<in> set m2" for k v
  proof -
    from that have "k \<in> fst ` set m2" by force
    with assms have "k \<in> fst ` set m1" by blast
    then show ?thesis by (simp add: map_of_eq_None_iff)
  qed
  then show ?thesis by (auto simp: filter_empty_conv)
qed

lemma distinct_getVariables: "distinct (map fst (getVariables plan))"
proof (cases "asMap (go_index plan ''variables'')")
  case None
  then show ?thesis by (simp add: getVariables_def)
next
  case (Some vars)
  have "distinct (map fst (fold (\<lambda>(k, v) result.
                  case asMap v of
                    Some varMap \<Rightarrow>
                      (case map_of varMap ''value'' of
                         Some val \<Rightarrow> AList.update k val result
                       | None \<Rightarrow> result)
                  | None \<Rightarrow> result) vars []))"
    by (rule fold_inv) (auto split: option.splits simp: distinct_update)
  with Some show ?thesis by (simp add: getVariables_def)
qed

lemma distinct_getOutputs: "distinct (map fst (getOutputs plan))"
proof -
  have "distinct (map fst (fold (\<lambda>(k, v) result.
        if map_of result k = None then AList.update k v result else result) xs acc))"
    if "distinct (map fst acc)" for xs acc :: jmap
    by (rule fold_inv) (use that in \<open>auto simp: distinct_update\<close>)
  then show ?thesis
    unfolding getOutputs_folds by (simp add: distinct_fold_update)
qed

lemma compareVariables_lists:
  assumes "\<not> deepEqual (JObj (getVariables origPlan)) (JObj (getVariables newPlan))"
  shows "\<exists>d c. compareVariables R origPlan newPlan =
     (d, [(''added'', JArr (map JObj (map addRemEntry
             (filter (\<lambda>(k, v). map_of (getVariables origPlan) k = None) (getVariables newPlan))))),
          (''removed'', JArr (map JObj (map addRemEntry
             (filter (\<lambda>(k, v). map_of (getVariables newPlan) k = None) (getVariables origPlan))))),
          (''changed'', JArr (map JObj c))], True)"
proof -
  let ?o = "getVariables origPlan" and ?n = "getVariables newPlan"
  let ?d0 = "([] @ ''Variables:'' @ nl) @ ''----------'' @ nl"
  let ?f1 = "\<lambda>(k, v) (diff, added).
                          if map_of ?o k = None then
                            (diff @ ''+ '' @ k @ '': '' @ formatValue R v @ nl,
                             added @ [[(''name'', JStr k), (''value'', v)]])
                          else (diff, added)"
  let ?f2 = "\<lambda>(k, v) (diff, removed).
                          if map_of ?n k = None then
                            (diff @ ''- '' @ k @ '': '' @ formatValue R v @ nl,
                             removed @ [[(''name'', JStr k), (''value'', v)]])
                          else (diff, removed)"
  let ?f3 = "\<lambda>(k, origV) (diff, changed).
                          let newV = go_index ?n k;
                              exists = (map_of ?n k \<noteq> None)
                          in if exists \<and> \<not> deepEqual origV newV then
                               (diff @ ''~ '' @ k @ '': '' @ formatValue R origV @ '' => ''
                                  @ formatValue R newV @ nl,
                                changed @ [[(''name'', JStr k), (''old'', origV), (''new'', newV)]])
                             else (diff, changed)"
  obtain d1 a1 where p1: "fold ?f1 ?n (?d0, []) = (d1, a1)" by (rule prod.exhaust)
  obtain d2 r2 where p2: "fold ?f2 ?o (d1, []) = (d2, r2)" by (rule prod.exhaust)
  obtain d3 c3 where p3: "fold ?f3 ?o (d2, []) = (d3, c3)" by (rule prod.exhaust)
  have a1: "a1 = map addRemEntry (filter (\<lambda>(k, v). map_of ?o k = None) ?n)"
    using fold_snd_filter [OF p1] by (simp add: addRemEntry_def)
  have r2: "r2 = map addRemEntry (filter (\<lambda>(k, v). map_of ?n k = None) ?o)"
    using fold_snd_filter [OF p2] by (simp add: addRemEntry_def)
  have "compareVariables R origPlan newPlan =
      (d3 @ nl, [(''added'', JArr (map JObj a1)), (''removed'', JArr (map JObj r2)),
                 (''changed'', JArr (map JObj c3))], True)"
    unfolding compareVariables_def Let_def if_not_P [OF assms]
    unfolding p1 prod.case
    unfolding p2 prod.case
    unfolding p3 [unfolded Let_def] prod.case
    by simp
  then show ?thesis unfolding a1 r2 by blast
qed

lemma compareOutputs_lists:
  "\<exists>d c. compareOutputs R origOutputs newOutputs =
     (d, [(''added'', JArr (map JObj (map addRemEntry
             (filter (\<lambda>(k, v). map_of origOutputs k = None) newOutputs)))),
          (''removed'', JArr (map JObj (map addRemEntry
             (filter (\<lambda>(k, v). map_of newOutputs k = None) origOutputs)))),
          (''changed'', JArr (map JObj c))])"
proof -
  let ?o = origOutputs and ?n = newOutputs
  let ?f1 = "\<lambda>(k, v) (diff, added).
                    if map_of ?o k = None then
                      (diff @ ''+ '' @ k @ '': '' @ formatValue R v @ nl,
                       added @ [[(''name'', JStr k), (''value'', v)]])
                    else (diff, added)"
  let ?f2 = "\<lambda>(k, v) (diff, removed).
                    if map_of ?n k = None then
                      (diff @ ''- '' @ k @ '': '' @ formatValue R v @ nl,
                       removed @ [[(''name'', JStr k), (''value'', v)]])
                    else (diff, removed)"
  let ?f3 = "\<lambda>(k, origV) (diff, changed).
                    let newV = go_index ?n k;
                        exists = (map_of ?n k \<noteq> None)
                    in if exists \<and> \<not> deepEqual origV newV then
                         (diff @ formatOutputChange R k origV newV,
                          changed @ [[(''name'', JStr k), (''old'', origV), (''new'', newV)]])
                       else (diff, changed)"
  obtain d1 a1 where p1: "fold ?f1 ?n ([], []) = (d1, a1)" by (rule prod.exhaust)
  obtain d2 r2 where p2: "fold ?f2 ?o (d1, []) = (d2, r2)" by (rule prod.exhaust)
  obtain d3 c3 where p3: "fold ?f3 ?o (d2, []) = (d3, c3)" by (rule prod.exhaust)
  have a1: "a1 = map addRemEntry (filter (\<lambda>(k, v). map_of ?o k = None) ?n)"
    using fold_snd_filter [OF p1] by (simp add: addRemEntry_def)
  have r2: "r2 = map addRemEntry (filter (\<lambda>(k, v). map_of ?n k = None) ?o)"
    using fold_snd_filter [OF p2] by (simp add: addRemEntry_def)
  have "compareOutputs R origOutputs newOutputs =
      (d3, [(''added'', JArr (map JObj a1)), (''removed'', JArr (map JObj r2)),
            (''changed'', JArr (map JObj c3))])"
    unfolding compareOutputs_def Let_def
    unfolding p1 prod.case
    unfolding p2 prod.case
    unfolding p3 [unfolded Let_def] prod.case
    by simp
  then show ?thesis unfolding a1 r2 by blast
qed

lemma compareVariables_added:
  "entries ''added'' (fst (snd (compareVariables R origPlan newPlan))) =
     (if deepEqual (JObj (getVariables origPlan)) (JObj (getVariables newPlan)) then []
      else map JObj (map addRemEntry
             (filter (\<lambda>(k, v). map_of (getVariables origPlan) k = None) (getVariables newPlan))))"
proof (cases "deepEqual (JObj (getVariables origPlan)) (JObj (getVariables newPlan))")
  case True
  then show ?thesis
    by (simp add: compareVariables_def entries_def del: deepEqual.simps)
next
  case False
  from compareVariables_lists [OF this, of R] False show ?thesis
    by (auto simp: entries_def simp del: deepEqual.simps)
qed

lemma compareVariables_removed:
  "entries ''removed'' (fst (snd (compareVariables R origPlan newPlan))) =
     (if deepEqual (JObj (getVariables origPlan)) (JObj (getVariables newPlan)) then []
      else map JObj (map addRemEntry
             (filter (\<lambda>(k, v). map_of (getVariables newPlan) k = None) (getVariables origPlan))))"
proof (cases "deepEqual (JObj (getVariables origPlan)) (JObj (getVariables newPlan))")
  case True
  then show ?thesis
    by (simp add: compareVariables_def entries_def del: deepEqual.simps)
next
  case False
  from compareVariables_lists [OF this, of R] False show ?thesis
    by (auto simp: entries_def simp del: deepEqual.simps)
qed

lemma compareOutputSections_added:
  "entries ''added'' (fst (snd (compareOutputSections R origPlan newPlan))) =
     (if deepEqual (JObj (getOutputs origPlan)) (JObj (getOutputs newPlan)) then []
      else map JObj (map addRemEntry
             (filter (\<lambda>(k, v). map_of (getOutputs origPlan) k = None) (getOutputs newPlan))))"
  using compareOutputs_lists [of R "getOutputs origPlan" "getOutputs newPlan"]
  by (auto simp: compareOutputSections_def entries_def simp del: deepEqual.simps)

lemma compareOutputSections_removed:
  "entries ''removed'' (fst (snd (compareOutputSections R origPlan newPlan))) =
     (if deepEqual (JObj (getOutputs origPlan)) (JObj (getOutputs newPlan)) then []
      else map JObj (map addRemEntry
             (filter (\<lambda>(k, v). map_of (getOutputs newPlan) k = None) (getOutputs origPlan))))"
  using compareOutputs_lists [of R "getOutputs origPlan" "getOutputs newPlan"]
  by (auto simp: compareOutputSections_def entries_def simp del: deepEqual.simps)

lemma added_removed_swap:
  assumes "distinct (map fst m1)" and "distinct (map fst m2)"
  shows "(if deepEqual (JObj m1) (JObj m2) then []
          else map JObj (map addRemEntry (filter (\<lambda>(k, v). map_of m1 k = None) m2)))
       = (if deepEqual (JObj m2) (JObj m1) then []
          else map JObj (map addRemEntry (filter (\<lambda>(k, v). map_of m1 k = None) m2)))"
proof -
  have "filter (\<lambda>(k, v). map_of m1 k = None) m2 = []"
    if "deepEqual (JObj m1) (JObj m2) \<or> deepEqual (JObj m2) (JObj m1)"
  proof -
    from that assms have "fst ` set m1 = fst ` set m2"
      using deepEqual_JObj_keys [of m1 m2] deepEqual_JObj_keys [of m2 m1] by blast
    then show ?thesis by (simp add: filter_absent_Nil)
  qed
  then show ?thesis by (auto simp del: deepEqual.simps)
qed

lemma compareVariables_nodiff:
  "\<not> snd (snd (compareVariables R origPlan newPlan)) \<Longrightarrow>
   fst (snd (compareVariables R origPlan newPlan)) = []"
  by (simp add: compareVariables_def Let_def split_beta del: deepEqual.simps split: if_splits)

lemma compareOutputSections_nodiff:
  "\<not> snd (snd (compareOutputSections R origPlan newPlan)) \<Longrightarrow>
   fst (snd (compareOutputSections R origPlan newPlan)) = []"
  by (simp add: compareOutputSections_def Let_def split_beta del: deepEqual.simps split: if_splits)

lemma generatePlanDiff_variables:
  "sectionDiff ''variables'' (fst (snd (generatePlanDiff R origPlan newPlan)))
     = fst (snd (compareVariables R origPlan newPlan))"
  using compareVariables_nodiff [of R origPlan newPlan]
  unfolding generatePlanDiff_def Let_def split_beta sectionDiff_def
  by (simp add: update_conv')

lemma generatePlanDiff_outputs:
  "sectionDiff ''outputs'' (fst (snd (generatePlanDiff R origPlan newPlan)))
     = fst (snd (compareOutputSections R origPlan newPlan))"
  using compareOutputSections_nodiff [of R origPlan newPlan]
  unfolding generatePlanDiff_def Let_def split_beta sectionDiff_def
  by (simp add: update_conv')

text \<open>
  Claim C6.  For all documents \<open>A\<close> and \<open>B\<close>, the entries (name and value) that the
  comparison of \<open>(A, B)\<close> reports as added are exactly the entries that the comparison
  of \<open>(B, A)\<close> reports as removed, for the variables and for the outputs.
\<close>

theorem added_removed_symmetry:
  "set (entries ''added'' (sectionDiff ''variables'' (fst (snd (generatePlanDiff R A B)))))
     = set (entries ''removed'' (sectionDiff ''variables'' (fst (snd (generatePlanDiff R B A)))))
   \<and> set (entries ''added'' (sectionDiff ''outputs'' (fst (snd (generatePlanDiff R A B)))))
     = set (entries ''removed'' (sectionDiff ''outputs'' (fst (snd (generatePlanDiff R B A)))))"
  unfolding generatePlanDiff_variables generatePlanDiff_outputs
    compareVariables_added compareVariables_removed
    compareOutputSections_added compareOutputSections_removed
  using added_removed_swap [OF distinct_getVariables distinct_getVariables, of A B]
    added_removed_swap [OF distinct_getOutputs distinct_getOutputs, of A B]
  by (simp del: deepEqual.simps)

theorem added_removed_symmetry_witness:
  "entries ''added'' (sectionDiff ''variables''
       (fst (snd (generatePlanDiff specRenderer exampleFewer exampleMore))))
     = [JObj [(''name'', JStr ''zone''), (''value'', JStr ''a'')]]
   \<and> entries ''removed'' (sectionDiff ''variables''
       (fst (snd (generatePlanDiff specRenderer exampleMore exampleFewer))))
     = [JObj [(''name'', JStr ''zone''), (''value'', JStr ''a'')]]
   \<and> set (entries ''added'' (sectionDiff ''outputs''
       (fst (snd (generatePlanDiff specRenderer exampleFewer exampleMore)))))
     = {JObj [(''name'', JStr ''url''), (''value'', JStr ''u'')]}
   \<and> set (entries ''removed'' (sectionDiff ''outputs''
       (fst (snd (generatePlanDiff specRenderer exampleMore exampleFewer)))))
     = {JObj [(''name'', JStr ''url''), (''value'', JStr ''u'')]}"
proof -
  have v: "getVariables exampleFewer = [(''region'', JStr ''us-east-1'')]"
    "getVariables exampleMore = [(''region'', JStr ''us-east-1''), (''zone'', JStr ''a'')]"
    by (simp_all add: exampleFewer_def exampleMore_def getVariables_def go_index_def)
  have o: "getOutputs exampleFewer = []" "getOutputs exampleMore = [(''url'', JStr ''u'')]"
    by (simp_all add: exampleFewer_def exampleMore_def getOutputs_def go_index_def)
  have "entries ''added'' (sectionDiff ''variables''
       (fst (snd (generatePlanDiff specRenderer exampleFewer exampleMore))))
     = [JObj [(''name'', JStr ''zone''), (''value'', JStr ''a'')]]"
    by (simp add: generatePlanDiff_variables compareVariables_added v addRemEntry_def)
  moreover have "entries ''added'' (sectionDiff ''outputs''
       (fst (snd (generatePlanDiff specRenderer exampleFewer exampleMore))))
     = [JObj [(''name'', JStr ''url''), (''value'', JStr ''u'')]]"
    by (simp add: generatePlanDiff_outputs compareOutputSections_added o addRemEntry_def)
  moreover have "entries ''removed'' (sectionDiff ''variables''
       (fst (snd (generatePlanDiff specRenderer exampleMore exampleFewer))))
     = [JObj [(''name'', JStr ''zone''), (''value'', JStr ''a'')]]"
    by (simp add: generatePlanDiff_variables compareVariables_removed v addRemEntry_def)
  ultimately show ?thesis
    using added_removed_symmetry [of specRenderer exampleFewer exampleMore]
    by simp
qed

section \<open>The flags of the section comparisons\<close>

lemma compareVariables_flag:
  "snd (snd (compareVariables R origPlan newPlan)) =
     (\<not> deepEqual (JObj (getVariables origPlan)) (JObj (getVariables newPlan)))"
  by (simp add: compareVariables_def Let_def split_beta del: deepEqual.simps)

lemma compareOutputSections_flag:
  "snd (snd (compareOutputSections R origPlan newPlan)) =
     (\<not> deepEqual (JObj (getOutputs origPlan)) (JObj (getOutputs newPlan)))"
  by (simp add: compareOutputSections_def Let_def split_beta del: deepEqual.simps)

lemma generatePlanDiff_keys:
  "(map_of (fst (snd (generatePlanDiff R origPlan newPlan))) ''variables'' = None)
      = (\<not> snd (snd (compareVariables R origPlan newPlan)))
   \<and> (map_of (fst (snd (generatePlanDiff R origPlan newPlan))) ''resources'' = None)
      = (\<not> snd (snd (compareResourceSections R origPlan newPlan)))
   \<and> (map_of (fst (snd (generatePlanDiff R origPlan newPlan))) ''outputs'' = None)
      = (\<not> snd (snd (compareOutputSections R origPlan newPlan)))"
  unfolding generatePlanDiff_def Let_def split_beta
  by (simp add: update_conv')

section \<open>Properties of the normalisation\<close>

lemma map_of_fold_assign_keys:
  "map_of (fold (\<lambda>k result. AList.update k (g k) result) ks acc) k =
     (if k \<in> set ks then Some (g k) else map_of acc k)"
  by (induction ks arbitrary: acc) (auto simp: update_conv')

lemma distinct_fold_assign_keys:
  "distinct (map fst acc) \<Longrightarrow>
   distinct (map fst (fold (\<lambda>k result. AList.update k (g k) result) ks acc))"
  by (induction ks arbitrary: acc) (auto simp: distinct_update)

lemma sorted_fold_assign_keys:
  assumes "sorted ks" and "sorted (map fst acc)"
    and "\<forall>a \<in> fst ` set acc. \<forall>k \<in> set ks. a \<le> k"
  shows "sorted (map fst (fold (\<lambda>k result. AList.update k (g k) result) ks acc))"
  using assms
proof (induction ks arbitrary: acc)
  case Nil
  then show ?case by simp
next
  case (Cons k ks)
  let ?acc = "AList.update k (g k) acc"
  have keys: "map fst ?acc = (if k \<in> fst ` set acc then map fst acc else map fst acc @ [k])"
    by (simp add: update_keys)
  from Cons.prems have "sorted (map fst ?acc)"
    unfolding keys by (auto simp: sorted_append)
  moreover from Cons.prems have "\<forall>a \<in> fst ` set ?acc. \<forall>k' \<in> set ks. a \<le> k'"
    by (auto simp: dom_update)
  moreover from Cons.prems have "sorted ks" by simp
  ultimately have "sorted (map fst (fold (\<lambda>k result. AList.update k (g k) result) ks ?acc))"
    by (intro Cons.IH)
  then show ?case by simp
qed

lemma sortMapKeys_fold:
  "sortMapKeys m =
     fold (\<lambda>k result. AList.update k (processValue (go_index m k)) result)
       (sort (map fst m)) []"
  by (simp add: sortMapKeys.simps)

lemma sorted_sortMapKeys: "sorted (map fst (sortMapKeys m))"
  unfolding sortMapKeys_fold by (rule sorted_fold_assign_keys) simp_all

lemma distinct_sortMapKeys: "distinct (map fst (sortMapKeys m))"
  unfolding sortMapKeys_fold by (rule distinct_fold_assign_keys) simp

lemma map_of_sortMapKeys: "map_of (sortMapKeys m) k = map_option processValue (map_of m k)"
proof (cases "map_of m k")
  case None
  then have "k \<notin> fst ` set m" by (simp add: map_of_eq_None_iff)
  with None show ?thesis
    unfolding sortMapKeys_fold by (simp add: map_of_fold_assign_keys)
next
  case (Some v)
  then have "k \<in> fst ` set m" by (metis map_of_eq_None_iff option.distinct(1))
  with Some show ?thesis
    unfolding sortMapKeys_fold by (simp add: map_of_fold_assign_keys go_index_def)
qed

lemma sorted_distinct_map_of_unique:
  assumes "sorted (map fst xs)" "distinct (map fst xs)"
    and "sorted (map fst ys)" "distinct (map fst ys)"
    and "map_of xs = map_of ys"
  shows "xs = ys"
proof -
  from assms(2,4,5) have eq: "set xs = set ys" by (simp add: map_of_inject_set)
  from assms(2) have "inj_on fst (set xs)" by (simp add: distinct_map)
  with eq have "inj_on fst (set xs \<union> set ys)" by simp
  then show ?thesis using assms(1-4) eq by (rule map_sorted_distinct_set_unique)
qed




section \<open>Normalised documents and reported differences\<close>

lemma sortMapKeys_fixed_values:
  assumes "sortMapKeys m = m" and "(k, v) \<in> set m"
  shows "processValue v = v"
proof -
  from assms(1) have "distinct (map fst m)" by (metis distinct_sortMapKeys)
  with assms(2) have "map_of m k = Some v" by simp
  moreover have "map_of m k = map_option processValue (map_of m k)"
    using map_of_sortMapKeys [of m k] assms(1) by simp
  ultimately show ?thesis by simp
qed

lemma map_fixed_values: "map f xs = xs \<Longrightarrow> x \<in> set xs \<Longrightarrow> f x = x"
  by (induction xs) auto

lemma normalized_wellFormed: "processValue v = v \<Longrightarrow> wellFormed v"
proof (induction v)
  case (JArr xs)
  then have "map processValue xs = xs" by simp
  then have "processValue x = x" if "x \<in> set xs" for x
    using that by (rule map_fixed_values)
  with JArr.IH show ?case by simp
next
  case (JObj m)
  then have fixed: "sortMapKeys m = m" by simp
  then have "distinct (map fst m)" by (metis distinct_sortMapKeys)
  moreover have "wellFormed v" if "(k, v) \<in> set m" for k v
  proof -
    from fixed that have "processValue v = v" by (rule sortMapKeys_fixed_values)
    with that show ?thesis using JObj.IH [of "(k, v)" v] by simp
  qed
  ultimately show ?case by auto
qed simp_all

lemma normalized_deepEqual_eq:
  "processValue a = a \<Longrightarrow> processValue b = b \<Longrightarrow> deepEqual a b \<Longrightarrow> a = b"
proof (induction a arbitrary: b)
  case (JArr xs)
  from JArr.prems(3) obtain ys where b: "b = JArr ys" by (cases b) simp_all
  from JArr.prems(1) have fx: "processValue x = x" if "x \<in> set xs" for x
    using that by (simp add: map_fixed_values)
  from JArr.prems(2) b have fy: "processValue y = y" if "y \<in> set ys" for y
    using that by (simp add: map_fixed_values)
  from JArr.prems(3) b have len: "length xs = length ys"
    and de: "\<And>x y. (x, y) \<in> set (zip xs ys) \<Longrightarrow> deepEqual x y" by auto
  have "xs ! i = ys ! i" if "i < length xs" for i
  proof -
    from that len have "(xs ! i, ys ! i) \<in> set (zip xs ys)"
      by (auto simp: set_zip)
    then have "deepEqual (xs ! i) (ys ! i)" by (rule de)
    moreover from that len have "xs ! i \<in> set xs" "ys ! i \<in> set ys" by simp_all
    ultimately show ?thesis using JArr.IH fx fy by blast
  qed
  with len have "xs = ys" by (simp add: list_eq_iff_nth_eq)
  with b show ?case by simp
next
  case (JObj m1)
  from JObj.prems(3) obtain m2 where b: "b = JObj m2" by (cases b) simp_all
  from JObj.prems(1) have f1: "sortMapKeys m1 = m1" by simp
  from JObj.prems(2) b have f2: "sortMapKeys m2 = m2" by simp
  have sd: "sorted (map fst m1)" "distinct (map fst m1)" "sorted (map fst m2)"
    "distinct (map fst m2)"
    using f1 f2 sorted_sortMapKeys distinct_sortMapKeys by metis+
  from JObj.prems(3) b have de: "deepEqual (JObj m1) (JObj m2)" by simp
  then have keys: "fst ` set m1 = fst ` set m2"
    using sd(2,4) by (rule deepEqual_JObj_keys)
  have "map_of m1 k = map_of m2 k" for k
  proof (cases "map_of m1 k")
    case None
    then have "k \<notin> fst ` set m1" by (simp add: map_of_eq_None_iff)
    with keys have "k \<notin> fst ` set m2" by simp
    then have "map_of m2 k = None" by (simp add: map_of_eq_None_iff)
    with None show ?thesis by simp
  next
    case (Some v1)
    then have mem: "(k, v1) \<in> set m1" by (rule map_of_SomeD)
    with de obtain v2 where v2: "map_of m2 k = Some v2" "deepEqual v1 v2"
      using deepEqual_JObj_lookup by blast
    from v2(1) have "(k, v2) \<in> set m2" by (rule map_of_SomeD)
    with f2 have "processValue v2 = v2" by (rule sortMapKeys_fixed_values)
    moreover from f1 mem have "processValue v1 = v1" by (rule sortMapKeys_fixed_values)
    ultimately have "v1 = v2" using JObj.IH [of "(k, v1)" v1 v2] mem v2(2) by simp
    with Some v2(1) show ?thesis by simp
  qed
  then have "map_of m1 = map_of m2" by (rule ext)
  with sd have "m1 = m2" by (intro sorted_distinct_map_of_unique)
  with b show ?case by simp
qed (case_tac b; simp)+

text \<open>
  Claim C5, amended.  For normalised documents, deep equality is equality, equal documents
  report no difference, and no difference is reported exactly when the variables, the
  resources and the outputs dictionaries extracted from the two documents are pairwise
  deeply equal; the key of a section is absent from the structured diff exactly when the
  dictionaries of that section are deeply equal.  The converse for whole documents does
  not hold: two normalised documents that differ only in \<open>format_version\<close> report no
  difference.
\<close>

theorem no_diff_iff_sections_equal:
  assumes "sortMapKeys A = A" and "sortMapKeys B = B"
  shows "deepEqual (JObj A) (JObj B) = (A = B)
       \<and> (A = B \<longrightarrow> snd (snd (generatePlanDiff R A B)) = False)
       \<and> (snd (snd (generatePlanDiff R A B)) = False) =
           (deepEqual (JObj (getVariables A)) (JObj (getVariables B))
            \<and> deepEqual (JObj (getResources A)) (JObj (getResources B))
            \<and> deepEqual (JObj (getOutputs A)) (JObj (getOutputs B)))
       \<and> (map_of (fst (snd (generatePlanDiff R A B))) ''variables'' = None)
           = deepEqual (JObj (getVariables A)) (JObj (getVariables B))
       \<and> (map_of (fst (snd (generatePlanDiff R A B))) ''resources'' = None)
           = deepEqual (JObj (getResources A)) (JObj (getResources B))
       \<and> (map_of (fst (snd (generatePlanDiff R A B))) ''outputs'' = None)
           = deepEqual (JObj (getOutputs A)) (JObj (getOutputs B))"
proof -
  from assms have n: "processValue (JObj A) = JObj A" "processValue (JObj B) = JObj B"
    by simp_all
  then have wf: "wellFormed (JObj A)" "wellFormed (JObj B)"
    by (simp_all only: normalized_wellFormed)
  have eq: "deepEqual (JObj A) (JObj B) = (A = B)"
    using normalized_deepEqual_eq [OF n] deepEqual_refl [OF wf(1)] by blast
  have "snd (snd (generatePlanDiff R A B)) = False" if "A = B"
    using wf(1) that by (simp add: generatePlanDiff_same del: wellFormed.simps)
  then show ?thesis
    using generatePlanDiff_keys [of R A B] eq
    by (auto simp add: generatePlanDiff_hasDiff compareVariables_flag
        compareResourceSections_flag compareOutputSections_flag
        simp del: deepEqual.simps wellFormed.simps)
qed

theorem no_diff_iff_sections_equal_witness:
  "sortMapKeys exampleOldPlan = exampleOldPlan \<and> sortMapKeys exampleNewPlan = exampleNewPlan
   \<and> snd (snd (generatePlanDiff specRenderer exampleOldPlan exampleNewPlan)) = True
   \<and> \<not> deepEqual (JObj (getResources exampleOldPlan)) (JObj (getResources exampleNewPlan))
   \<and> map_of (fst (snd (generatePlanDiff specRenderer exampleOldPlan exampleNewPlan))) ''variables''
       = None
   \<and> map_of (fst (snd (generatePlanDiff specRenderer exampleOldPlan exampleNewPlan))) ''resources''
       \<noteq> None
   \<and> snd (snd (generatePlanDiff specRenderer exampleOldPlan exampleOldPlan)) = False"
proof -
  have n: "sortMapKeys exampleOldPlan = exampleOldPlan"
    "sortMapKeys exampleNewPlan = exampleNewPlan"
    by (simp_all add: exampleOldPlan_def exampleNewPlan_def sortMapKeys.simps go_index_def)
  have r: "\<not> deepEqual (JObj (getResources exampleOldPlan)) (JObj (getResources exampleNewPlan))"
    by (simp add: exampleOldPlan_def exampleNewPlan_def res_eval)
  have v: "deepEqual (JObj (getVariables exampleOldPlan)) (JObj (getVariables exampleNewPlan))"
    by (simp add: exampleOldPlan_def exampleNewPlan_def getVariables_def go_index_def)
  from no_diff_iff_sections_equal [OF n, of specRenderer]
    no_diff_iff_sections_equal [OF n(1) n(1), of specRenderer] n r v
  show ?thesis by (simp del: deepEqual.simps)
qed

lemmas section_eval =
  getVariables_def getOutputs_def res_eval

lemmas diff_eval =
  generatePlanDiff_def compareVariables_def compareResourceSections_def
  compareOutputSections_def section_eval

theorem no_diff_not_equal_counterexample:
  "wellFormed (JObj exampleVersionA) \<and> wellFormed (JObj exampleVersionB)
   \<and> sortMapKeys exampleVersionA = exampleVersionA
   \<and> sortMapKeys exampleVersionB = exampleVersionB
   \<and> generatePlanDiff specRenderer exampleVersionA exampleVersionB = ('''', [], False)
   \<and> exampleVersionA \<noteq> exampleVersionB
   \<and> \<not> deepEqual (JObj exampleVersionA) (JObj exampleVersionB)"
  by (simp add: exampleVersionA_def exampleVersionB_def sortMapKeys.simps diff_eval)

end
